theory Spec2Isabelle
  imports Complex_Main "HOL-Library.Sublist"
begin

section \<open>Values of type double\<close>

text \<open>
  The C++ type double, IEEE 754 binary64. A finite value is carried as the real number
  it denotes, with the two zeros kept apart (\<open>Fin 0\<close> is +0, \<open>NegZero\<close> is -0), and
  the three kinds of special value are explicit. An operation computes the exact real
  result and rounds it to the nearest double, ties to the even mantissa: 53 bits of
  mantissa in the normal range (exponents -1022 to 1023), multiples of \<open>2 powi (-1074)\<close>
  below it, an infinity for a result of magnitude \<open>2 powi 1024 - 2 powi 970\<close> or more, a
  signed zero for a result that rounds to nothing. On zeros, infinities and NaN the
  operations follow the tables of IEEE 754.
\<close>

datatype double = Fin real | NegZero | PInf | NInf | NaN

fun is_nan :: "double \<Rightarrow> bool" where
  "is_nan NaN = True"
| "is_nan _ = False"

fun is_inf :: "double \<Rightarrow> bool" where
  "is_inf PInf = True"
| "is_inf NInf = True"
| "is_inf _ = False"

text \<open>The sign bit (meaningless for NaN).\<close>

fun sign_bit :: "double \<Rightarrow> bool" where
  "sign_bit (Fin r) = (r < 0)"
| "sign_bit NegZero = True"
| "sign_bit PInf = False"
| "sign_bit NInf = True"
| "sign_bit NaN = False"

text \<open>The real value of a finite double; both zeros have value 0.\<close>

fun fin_val :: "double \<Rightarrow> real" where
  "fin_val (Fin r) = r"
| "fin_val _ = 0"

definition signed_zero :: "bool \<Rightarrow> double" where
  "signed_zero neg = (if neg then NegZero else Fin 0)"

definition signed_inf :: "bool \<Rightarrow> double" where
  "signed_inf neg = (if neg then NInf else PInf)"

subsection \<open>Rounding\<close>

text \<open>
  The exponent of the binade of a positive real \<open>a\<close>: the \<open>e\<close> with
  \<open>2 powi e \<le> a < 2 powi (e + 1)\<close>, kept between -1022 (everything below the normal
  range shares the spacing of the lowest binade) and 1024 (too large for a double). It
  is found by stepping up from 0 or down from -1.
\<close>

function find_up :: "real \<Rightarrow> int \<Rightarrow> int" where
  "find_up a e = (if 1024 \<le> e \<or> a < 2 powi (e + 1) then e else find_up a (e + 1))"
  by pat_completeness auto
termination
  by (relation "measure (\<lambda>(a, e). nat (1024 - e))") auto

function find_down :: "real \<Rightarrow> int \<Rightarrow> int" where
  "find_down a e = (if e \<le> - 1022 \<or> 2 powi e \<le> a then e else find_down a (e - 1))"
  by pat_completeness auto
termination
  by (relation "measure (\<lambda>(a, e). nat (e + 1022))") auto

declare find_up.simps [simp del]

declare find_down.simps [simp del]

definition binade :: "real \<Rightarrow> int" where
  "binade a = (if 1 \<le> a then find_up a 0 else find_down a (- 1))"

text \<open>The nearest integer, a tie going to the even one.\<close>

definition round_half_even :: "real \<Rightarrow> int" where
  "round_half_even x =
     (if x - of_int \<lfloor>x\<rfloor> < 1 / 2 then \<lfloor>x\<rfloor>
      else if 1 / 2 < x - of_int \<lfloor>x\<rfloor> then \<lfloor>x\<rfloor> + 1
      else if even \<lfloor>x\<rfloor> then \<lfloor>x\<rfloor> else \<lfloor>x\<rfloor> + 1)"

text \<open>
  The double nearest to the real \<open>r\<close>: the mantissa \<open>m\<close> is \<open>\<bar>r\<bar>\<close> in units of
  the spacing \<open>q\<close> of its binade, rounded to an integer.
\<close>

definition round_double :: "real \<Rightarrow> double" where
  "round_double r =
     (let e = binade \<bar>r\<bar>;
          q = 2 powi (e - 52);
          m = round_half_even (\<bar>r\<bar> / q)
      in if 1024 \<le> e \<or> 2 powi 1024 \<le> of_int m * q then signed_inf (r < 0)
         else if m = 0 then signed_zero (r < 0)
         else Fin (if r < 0 then - (of_int m * q) else of_int m * q))"

text \<open>
  The values a double can hold: those that rounding leaves alone. Every result of the
  operations below is one of them, whatever the operands are.
\<close>

definition representable :: "double \<Rightarrow> bool" where
  "representable a = (case a of Fin v \<Rightarrow> round_double v = Fin v | _ \<Rightarrow> True)"

subsection \<open>Arithmetic\<close>

text \<open>Subtraction \<open>a - b\<close>. An exact zero difference is +0 unless it is (-0) - (+0).\<close>

definition dsub :: "double \<Rightarrow> double \<Rightarrow> double" where
  "dsub a b =
     (if is_nan a \<or> is_nan b then NaN
      else if is_inf a then (if is_inf b \<and> sign_bit a = sign_bit b then NaN else a)
      else if is_inf b then signed_inf (\<not> sign_bit b)
      else if fin_val a - fin_val b \<noteq> 0 then round_double (fin_val a - fin_val b)
      else signed_zero (a = NegZero \<and> b = Fin 0))"

text \<open>Multiplication. The sign of a zero or infinite product is the xor of the signs.\<close>

definition dmul :: "double \<Rightarrow> double \<Rightarrow> double" where
  "dmul a b =
     (if is_nan a \<or> is_nan b then NaN
      else if is_inf a \<or> is_inf b then
        (if (\<not> is_inf a \<and> fin_val a = 0) \<or> (\<not> is_inf b \<and> fin_val b = 0) then NaN
         else signed_inf (sign_bit a \<noteq> sign_bit b))
      else if fin_val a * fin_val b \<noteq> 0 then round_double (fin_val a * fin_val b)
      else signed_zero (sign_bit a \<noteq> sign_bit b))"

text \<open>Division. \<open>0/0\<close> and \<open>inf/inf\<close> are NaN; a nonzero value over zero is an infinity.\<close>

definition ddiv :: "double \<Rightarrow> double \<Rightarrow> double" where
  "ddiv a b =
     (if is_nan a \<or> is_nan b then NaN
      else if is_inf a then (if is_inf b then NaN else signed_inf (sign_bit a \<noteq> sign_bit b))
      else if is_inf b then signed_zero (sign_bit a \<noteq> sign_bit b)
      else if fin_val b = 0 then
        (if fin_val a = 0 then NaN else signed_inf (sign_bit a \<noteq> sign_bit b))
      else if fin_val a / fin_val b \<noteq> 0 then round_double (fin_val a / fin_val b)
      else signed_zero (sign_bit a \<noteq> sign_bit b))"

text \<open>
  Conversion of a C++ int to double. An int has 32 bits and every such integer is a
  double, so the conversion never rounds.
\<close>

definition double_of_int :: "int \<Rightarrow> double" where
  "double_of_int i = Fin (of_int i)"

text \<open>The comparison \<open>a == b\<close> on doubles: NaN equals nothing, the two zeros are equal.\<close>

definition deq :: "double \<Rightarrow> double \<Rightarrow> bool" where
  "deq a b =
     (if is_nan a \<or> is_nan b then False
      else if is_inf a \<or> is_inf b then a = b
      else fin_val a = fin_val b)"

text \<open>The comparison \<open>0 < a\<close> on doubles.\<close>

fun dpositive :: "double \<Rightarrow> bool" where
  "dpositive (Fin r) = (0 < r)"
| "dpositive PInf = True"
| "dpositive _ = False"

section \<open>Messages and matrices\<close>

text \<open>\<open>cv::Mat\<close> of element type CV_64F: dimensions and the elements in row-major order.\<close>

record mat =
  mat_rows :: nat
  mat_cols :: nat
  mat_data :: "double list"

text \<open>A default-constructed \<open>cv::Mat\<close> (the global before any assignment) is empty.\<close>

definition mat_empty :: mat where
  "mat_empty = \<lparr>mat_rows = 0, mat_cols = 0, mat_data = []\<rparr>"

definition mat_zeros :: "nat \<Rightarrow> nat \<Rightarrow> mat" where
  "mat_zeros r c = \<lparr>mat_rows = r, mat_cols = c, mat_data = replicate (r * c) (Fin 0)\<rparr>"

text \<open>
  Reading \<open>m.at<double>(i, j)\<close>. Outside the matrix the program has undefined
  behaviour; the model answers None there.
\<close>

definition mat_at :: "mat \<Rightarrow> nat \<Rightarrow> nat \<Rightarrow> double option" where
  "mat_at m i j =
     (if i < mat_rows m \<and> j < mat_cols m \<and> i * mat_cols m + j < length (mat_data m)
      then Some (mat_data m ! (i * mat_cols m + j)) else None)"

text \<open>
  Writing \<open>m.at<double>(i, j) = v\<close>. Every write of the program is to a fixed cell of a
  fresh 3 by 3 matrix, so inside the range.
\<close>

definition mat_set :: "mat \<Rightarrow> nat \<Rightarrow> nat \<Rightarrow> double \<Rightarrow> mat" where
  "mat_set m i j v = m\<lparr>mat_data := (mat_data m)[i * mat_cols m + j := v]\<rparr>"

text \<open>
  \<open>sensor_msgs::CameraInfo\<close>: only the field K is read. K is a
  \<open>boost::array<double, 9>\<close>, so it always has nine elements.
\<close>

record CameraInfo =
  msg_K :: "double list"

datatype duration = Duration real

record Header =
  frame_id :: string
  stamp :: nat

record Point =
  point_x :: double
  point_y :: double
  point_z :: double

record PointStamped =
  header :: Header
  point :: Point

record PointHeadGoal =
  target :: PointStamped
  pointing_axis :: Point
  pointing_frame :: string
  min_duration :: duration
  max_velocity :: double

record image_msg =
  encoding :: string
  pixels :: "nat list"

section \<open>Program state and observable effects\<close>

datatype log_level = Debug | Info | Fatal

datatype log_item = Str string | Num int

datatype effect =
    RosInit string
  | Log log_level "log_item list"
  | WaitForValid duration
  | Subscribe string nat
  | SubscriberShutdown string
  | SpinOnce
  | Sleep duration
  | NewActionClient string
  | WaitForServer duration
  | SendGoal PointHeadGoal
  | NamedWindow string
  | SetMouseCallback string
  | ImShow string image_msg
  | WaitKey int
  | Spin
  | DestroyWindow string

text \<open>
  The globals of the program (\<open>cameraIntrinsics\<close>, \<open>intrinsicsReceived\<close>,
  \<open>pointHeadClient\<close>), the handles main holds (the two subscribers, the mouse
  callback of the window), a logical clock that advances with every blocking call, and
  the effects performed so far, oldest first.
\<close>

record state =
  cameraIntrinsics :: mat
  intrinsicsReceived :: bool
  pointHeadClient :: "string option"
  cameraInfoSub :: bool
  imageSub :: bool
  mouseCallback :: bool
  clock :: nat
  trace :: "effect list"

definition emit :: "effect \<Rightarrow> state \<Rightarrow> state" where
  "emit e s = s\<lparr>trace := trace s @ [e]\<rparr>"

definition tick :: "state \<Rightarrow> state" where
  "tick s = s\<lparr>clock := Suc (clock s)\<rparr>"

text \<open>
  What the outside world does, as a function of the logical clock: whether a valid time
  shows up within the startup bound, when shutdown is requested (None: never), which
  calibration message is pending at a tick, whether the action server answers the wait
  started at a tick, the reading of \<open>ros::Time::now()\<close>, the image message pending at
  a tick, the mouse events the window delivers during the \<open>waitKey\<close> of a tick
  (event, u, v, flags), and whether cv_bridge can convert an image.
\<close>

record env =
  time_valid :: bool
  shutdown_at :: "nat option"
  calib_msg :: "nat \<Rightarrow> CameraInfo option"
  server_up :: "nat \<Rightarrow> bool"
  time_now :: "nat \<Rightarrow> nat"
  image_in :: "nat \<Rightarrow> image_msg option"
  mouse_in :: "nat \<Rightarrow> (int \<times> int \<times> int \<times> int) list"
  cv_convertible :: "image_msg \<Rightarrow> bool"

text \<open>\<open>ros::ok()\<close>: true until shutdown is requested, false from then on.\<close>

definition ros_ok :: "env \<Rightarrow> state \<Rightarrow> bool" where
  "ros_ok w s = (case shutdown_at w of None \<Rightarrow> True | Some t \<Rightarrow> clock s < t)"

datatype failure = RuntimeError string | CvBridgeException | UndefinedBehaviour string

datatype outcome = Returns state | Throws failure state

section \<open>The program\<close>

definition windowName :: string where
  "windowName = ''REEM left eye''"

definition cameraFrame :: string where
  "cameraFrame = ''/stereo_optical_frame''"

definition imageTopic :: string where
  "imageTopic = ''/stereo/left/image''"

definition cameraInfoTopic :: string where
  "cameraInfoTopic = ''/stereo/left/camera_info''"

text \<open>\<open>cv::EVENT_LBUTTONDOWN\<close> and its neighbours, with the values OpenCV gives them.\<close>

definition EVENT_MOUSEMOVE :: int where
  "EVENT_MOUSEMOVE = 0"

definition EVENT_LBUTTONDOWN :: int where
  "EVENT_LBUTTONDOWN = 1"

definition EVENT_LBUTTONUP :: int where
  "EVENT_LBUTTONUP = 4"

subsection \<open>getCameraIntrinsics\<close>

definition getCameraIntrinsics :: "CameraInfo \<Rightarrow> state \<Rightarrow> state" where
  "getCameraIntrinsics msg s =
     (let m0 = mat_zeros 3 3;
          m1 = mat_set m0 0 0 (msg_K msg ! 0);
          m2 = mat_set m1 1 1 (msg_K msg ! 4);
          m3 = mat_set m2 0 2 (msg_K msg ! 2);
          m4 = mat_set m3 1 2 (msg_K msg ! 5);
          m5 = mat_set m4 2 2 (double_of_int 1)
      in s\<lparr>cameraIntrinsics := m5, intrinsicsReceived := True\<rparr>)"

subsection \<open>onMouse\<close>

text \<open>
  The pixel-to-ray computation of lines 114 to 119, on the four matrix entries it reads.
\<close>

definition project :: "int \<Rightarrow> int \<Rightarrow> double \<Rightarrow> double \<Rightarrow> double \<Rightarrow> double \<Rightarrow> Point" where
  "project u v m02 m00 m12 m11 =
     (let x = ddiv (dsub (double_of_int u) m02) m00;
          y = ddiv (dsub (double_of_int v) m12) m11;
          Z = Fin 1
      in \<lparr>point_x = dmul x Z, point_y = dmul y Z, point_z = Z\<rparr>)"

text \<open>
  The mouse callback. Reading an entry outside the matrix and calling through a null
  \<open>pointHeadClient\<close> are undefined behaviour in C++; the model reports them as
  failures instead of inventing a result.
\<close>

definition onMouse :: "env \<Rightarrow> int \<Rightarrow> int \<Rightarrow> int \<Rightarrow> int \<Rightarrow> state \<Rightarrow> outcome" where
  "onMouse w event u v flags s =
     (if event \<noteq> EVENT_LBUTTONDOWN then Returns s
      else
        let s1 = emit (Log Info [Str ''Pixel selected ('', Num u, Str '', '', Num v,
                                 Str '') Making REEM look to that direction'']) s;
            hdr = \<lparr>frame_id = cameraFrame, stamp = time_now w (clock s1)\<rparr>
        in case (mat_at (cameraIntrinsics s1) 0 2, mat_at (cameraIntrinsics s1) 0 0,
                 mat_at (cameraIntrinsics s1) 1 2, mat_at (cameraIntrinsics s1) 1 1) of
             (Some m02, Some m00, Some m12, Some m11) \<Rightarrow>
               (let pointStamped = \<lparr>header = hdr, point = project u v m02 m00 m12 m11\<rparr>;
                    goal = \<lparr>target = pointStamped,
                            pointing_axis = \<lparr>point_x = Fin 0, point_y = Fin 0, point_z = Fin 1\<rparr>,
                            pointing_frame = cameraFrame,
                            min_duration = Duration 0.5,
                            max_velocity = Fin 1\<rparr>
                in case pointHeadClient s1 of
                     None \<Rightarrow> Throws (UndefinedBehaviour ''null pointHeadClient'') s1
                   | Some c \<Rightarrow> Returns (emit (SendGoal goal) s1))
           | _ \<Rightarrow> Throws (UndefinedBehaviour ''cameraIntrinsics read out of range'') s1)"

subsection \<open>createPointHeadClient\<close>

definition max_iterations :: nat where
  "max_iterations = 3"

definition head_action_name :: string where
  "head_action_name = ''/head_traj_controller/point_head_action''"

text \<open>
  \<open>actionClient->waitForServer(d)\<close> blocks for at most \<open>d\<close> and tells whether the
  server is connected.
\<close>

definition waitForServer :: "duration \<Rightarrow> env \<Rightarrow> state \<Rightarrow> bool \<times> state" where
  "waitForServer d w s = (server_up w (clock s), tick (emit (WaitForServer d) s))"

text \<open>
  The while loop of lines 154 to 158. The condition is evaluated left to right:
  first the wait, then \<open>ros::ok()\<close>, then the comparison of the counter.
\<close>

function head_client_loop :: "env \<Rightarrow> nat \<Rightarrow> state \<Rightarrow> nat \<times> state" where
  "head_client_loop w iterations s =
     (case waitForServer (Duration 2) w s of
        (up, s1) \<Rightarrow>
          if \<not> up \<and> ros_ok w s1 \<and> iterations < max_iterations
          then head_client_loop w (Suc iterations)
                 (emit (Log Debug [Str ''Waiting for the point_head_action server to come up'']) s1)
          else (iterations, s1))"
  by pat_completeness auto
termination
  by (relation "measure (\<lambda>(w, i, s). max_iterations - i)") auto

declare head_client_loop.simps [simp del]

definition createPointHeadClient :: "env \<Rightarrow> state \<Rightarrow> outcome" where
  "createPointHeadClient w s =
     (let s0 = emit (NewActionClient head_action_name)
                 (s\<lparr>pointHeadClient := Some head_action_name\<rparr>)
      in case head_client_loop w 0 s0 of
           (iterations, s1) \<Rightarrow>
             if iterations = max_iterations
             then Throws (RuntimeError
               ''Error in createPointHeadClient: head controller action server not available'') s1
             else Returns s1)"

subsection \<open>imageCallback and the delivery of callbacks\<close>

text \<open>The window hands its pending mouse events to the registered callback, in order.\<close>

fun deliver_mouse :: "env \<Rightarrow> (int \<times> int \<times> int \<times> int) list \<Rightarrow> state \<Rightarrow> outcome" where
  "deliver_mouse w [] s = Returns s"
| "deliver_mouse w ((event, u, v, flags) # evs) s =
     (case onMouse w event u v flags s of
        Returns s1 \<Rightarrow> deliver_mouse w evs s1
      | Throws f s1 \<Rightarrow> Throws f s1)"

text \<open>\<open>cv::waitKey\<close> is where the window processes its events.\<close>

definition waitKey :: "int \<Rightarrow> env \<Rightarrow> state \<Rightarrow> outcome" where
  "waitKey delay w s =
     (let s1 = emit (WaitKey delay) s
      in if mouseCallback s1 then deliver_mouse w (mouse_in w (clock s1)) s1 else Returns s1)"

definition imageCallback :: "env \<Rightarrow> image_msg \<Rightarrow> state \<Rightarrow> outcome" where
  "imageCallback w imgMsg s =
     (if \<not> cv_convertible w imgMsg then Throws CvBridgeException s
      else waitKey 15 w (emit (ImShow windowName imgMsg) s))"

text \<open>
  One round of the callback queue. Both subscriptions have queue size 1, so a round
  calls each subscribed callback at most once, and only while its subscriber is alive.
\<close>

definition callAvailable :: "env \<Rightarrow> state \<Rightarrow> outcome" where
  "callAvailable w s =
     (let s1 = (case (if cameraInfoSub s then calib_msg w (clock s) else None) of
                  None \<Rightarrow> s
                | Some msg \<Rightarrow> getCameraIntrinsics msg s)
      in case (if imageSub s1 then image_in w (clock s1) else None) of
           None \<Rightarrow> Returns s1
         | Some imgMsg \<Rightarrow> imageCallback w imgMsg s1)"

definition spinOnce :: "env \<Rightarrow> state \<Rightarrow> outcome" where
  "spinOnce w s = callAvailable w (emit SpinOnce s)"

subsection \<open>The two while statements of main\<close>

text \<open>
  Either of them may run forever, so each takes fuel: the largest number of times the
  body may run. \<open>OutOfFuel\<close> carries the state reached when the fuel is used up and the
  condition still holds.
\<close>

datatype run = Done state | Raised failure state | OutOfFuel state

text \<open>Lines 188 to 192.\<close>

fun wait_for_intrinsics :: "nat \<Rightarrow> env \<Rightarrow> state \<Rightarrow> run" where
  "wait_for_intrinsics 0 w s =
     (if ros_ok w s \<and> \<not> intrinsicsReceived s then OutOfFuel s else Done s)"
| "wait_for_intrinsics (Suc n) w s =
     (if ros_ok w s \<and> \<not> intrinsicsReceived s then
        (case spinOnce w s of
           Throws f s1 \<Rightarrow> Raised f s1
         | Returns s1 \<Rightarrow> wait_for_intrinsics n w (tick (emit (Sleep (Duration 0.2)) s1)))
      else Done s)"

text \<open>\<open>ros::spin()\<close>: rounds of the callback queue for as long as \<open>ros::ok()\<close>.\<close>

fun spin_loop :: "nat \<Rightarrow> env \<Rightarrow> state \<Rightarrow> run" where
  "spin_loop 0 w s = (if ros_ok w s then OutOfFuel s else Done s)"
| "spin_loop (Suc n) w s =
     (if ros_ok w s then
        (case callAvailable w s of
           Throws f s1 \<Rightarrow> Raised f s1
         | Returns s1 \<Rightarrow> spin_loop n w (tick s1))
      else Done s)"

definition ros_spin :: "nat \<Rightarrow> env \<Rightarrow> state \<Rightarrow> run" where
  "ros_spin fuel w s = spin_loop fuel w (emit Spin s)"

subsection \<open>main\<close>

definition EXIT_SUCCESS :: int where
  "EXIT_SUCCESS = 0"

definition EXIT_FAILURE :: int where
  "EXIT_FAILURE = 1"

text \<open>
  How the process ends: a return from main with an exit code, an exception nobody
  catches (the process is terminated), or still running when the fuel is used up.
\<close>

datatype exit_status = Exit int state | Abort failure state | Pending state

fun final_state :: "exit_status \<Rightarrow> state" where
  "final_state (Exit c s) = s"
| "final_state (Abort f s) = s"
| "final_state (Pending s) = s"

definition initial_state :: state where
  "initial_state =
     \<lparr>cameraIntrinsics = mat_empty, intrinsicsReceived = False, pointHeadClient = None,
      cameraInfoSub = False, imageSub = False, mouseCallback = False, clock = 0, trace = []\<rparr>"

text \<open>Lines 170 to 186 when the clock is valid: the state in which the wait loop starts.\<close>

definition waiting_state :: state where
  "waiting_state =
     (let s0 = emit (Log Info [Str ''Starting look_to_point application ...''])
                 (emit (RosInit ''look_to_point'') initial_state);
          s1 = emit (WaitForValid (Duration 5)) s0;
          s2 = (emit (Subscribe cameraInfoTopic 1) s1)
                 \<lparr>cameraInfoSub := True, intrinsicsReceived := False\<rparr>
      in emit (Log Info [Str ''Waiting for camera intrinsics ... '']) s2)"

text \<open>Lines 194 to 217: what main does once the wait loop is left.\<close>

definition main_after_intrinsics :: "nat \<Rightarrow> env \<Rightarrow> state \<Rightarrow> exit_status" where
  "main_after_intrinsics fuel w s =
     (let s1 = emit (SubscriberShutdown cameraInfoTopic) (s\<lparr>cameraInfoSub := False\<rparr>)
      in case createPointHeadClient w s1 of
           Throws f s2 \<Rightarrow> Abort f s2
         | Returns s2 \<Rightarrow>
             (let s3 = emit (NamedWindow windowName) s2;
                  s4 = emit (SetMouseCallback windowName) (s3\<lparr>mouseCallback := True\<rparr>);
                  s5 = emit (Log Info [Str ''Subscribing to '', Str imageTopic, Str '' ...'']) s4;
                  s6 = emit (Subscribe imageTopic 1) (s5\<lparr>imageSub := True\<rparr>)
              in case ros_spin fuel w s6 of
                   OutOfFuel s7 \<Rightarrow> Pending s7
                 | Raised f s7 \<Rightarrow> Abort f s7
                 | Done s7 \<Rightarrow> Exit EXIT_SUCCESS (emit (DestroyWindow windowName) s7)))"

definition main :: "nat \<Rightarrow> env \<Rightarrow> exit_status" where
  "main fuel w =
     (let s0 = emit (Log Info [Str ''Starting look_to_point application ...''])
                 (emit (RosInit ''look_to_point'') initial_state);
          s1 = emit (WaitForValid (Duration 5)) s0
      in if \<not> time_valid w
         then Exit EXIT_FAILURE (emit (Log Fatal [Str ''Timed-out waiting for valid time.'']) s1)
         else case wait_for_intrinsics fuel w waiting_state of
                OutOfFuel s4 \<Rightarrow> Pending s4
              | Raised f s4 \<Rightarrow> Abort f s4
              | Done s4 \<Rightarrow> main_after_intrinsics fuel w s4)"

section \<open>Observations on runs\<close>

fun outcome_state :: "outcome \<Rightarrow> state" where
  "outcome_state (Returns s) = s"
| "outcome_state (Throws f s) = s"

fun run_state :: "run \<Rightarrow> state" where
  "run_state (Done s) = s"
| "run_state (Raised f s) = s"
| "run_state (OutOfFuel s) = s"

text \<open>The goals handed to \<open>sendGoal\<close> so far, oldest first.\<close>

definition goals_sent :: "state \<Rightarrow> PointHeadGoal list" where
  "goals_sent s = concat (map (\<lambda>e. case e of SendGoal g \<Rightarrow> [g] | _ \<Rightarrow> []) (trace s))"

text \<open>The timeouts of the calls of \<open>waitForServer\<close> made so far, oldest first.\<close>

definition wait_durations :: "state \<Rightarrow> duration list" where
  "wait_durations s = concat (map (\<lambda>e. case e of WaitForServer d \<Rightarrow> [d] | _ \<Rightarrow> []) (trace s))"

text \<open>The topics subscribed to so far.\<close>

definition subscriptions :: "state \<Rightarrow> string list" where
  "subscriptions s = concat (map (\<lambda>e. case e of Subscribe topic q \<Rightarrow> [topic] | _ \<Rightarrow> []) (trace s))"

definition seconds :: "duration \<Rightarrow> real" where
  "seconds d = (case d of Duration r \<Rightarrow> r)"

text \<open>The part of the state that the calibration callback and its subscriber own.\<close>

definition calibration :: "state \<Rightarrow> mat \<times> bool \<times> bool" where
  "calibration s = (cameraIntrinsics s, intrinsicsReceived s, cameraInfoSub s)"

subsection \<open>Sample inputs\<close>

text \<open>The intrinsics of the example of the specification: fx = fy = 500, cx = 320, cy = 240.\<close>

definition K0 :: "double list" where
  "K0 = [Fin 500, Fin 0, Fin 320, Fin 0, Fin 500, Fin 240, Fin 0, Fin 0, Fin 1]"

text \<open>A world in which nothing ever happens: no shutdown, no message, no server.\<close>

definition quiet_env :: env where
  "quiet_env = \<lparr>time_valid = True, shutdown_at = None, calib_msg = (\<lambda>t. None),
       server_up = (\<lambda>t. False), time_now = (\<lambda>t. 1000 + t), image_in = (\<lambda>t. None),
       mouse_in = (\<lambda>t. []), cv_convertible = (\<lambda>m. True)\<rparr>"

text \<open>A state in which the intrinsics \<open>K0\<close> have been received and the client exists.\<close>

definition ready_state :: state where
  "ready_state =
     (getCameraIntrinsics \<lparr>msg_K = K0\<rparr> initial_state)\<lparr>pointHeadClient := Some head_action_name\<rparr>"

text \<open>Other intrinsics, to tell a second calibration message from the first.\<close>

definition K1 :: "double list" where
  "K1 = [Fin 700, Fin 0, Fin 400, Fin 0, Fin 700, Fin 300, Fin 0, Fin 0, Fin 1]"

text \<open>A world without a valid time.\<close>

definition no_clock_env :: env where
  "no_clock_env = quiet_env\<lparr>time_valid := False\<rparr>"

text \<open>A world that is shut down at tick 3 and never sends a calibration message.\<close>

definition silent_env :: env where
  "silent_env = quiet_env\<lparr>shutdown_at := Some 3\<rparr>"

text \<open>
  A world whose first calibration message comes at tick 1, whose server never answers,
  and which is shut down at tick 4, during the second wait for the server.
\<close>

definition cancel_env :: env where
  "cancel_env = quiet_env\<lparr>shutdown_at := Some 4,
     calib_msg := (\<lambda>t. if t = 1 then Some \<lparr>msg_K = K0\<rparr> else None)\<rparr>"

text \<open>
  A world whose first calibration message comes at tick 1 and which keeps sending other
  intrinsics from tick 2 on, with a server that answers at once and a shutdown at tick 6.
\<close>

definition calib_env :: env where
  "calib_env = quiet_env\<lparr>shutdown_at := Some 6, server_up := (\<lambda>t. True),
     calib_msg := (\<lambda>t. if t = 0 then None else if t = 1 then Some \<lparr>msg_K = K0\<rparr>
                         else Some \<lparr>msg_K = K1\<rparr>)\<rparr>"

section \<open>Basic facts\<close>

subsection \<open>Rounding\<close>

lemma find_up_spec:
  "e0 \<le> 1024 \<Longrightarrow> 2 powi e0 \<le> a \<Longrightarrow>
   e0 \<le> find_up a e0 \<and> find_up a e0 \<le> 1024 \<and> 2 powi (find_up a e0) \<le> a \<and>
   (find_up a e0 < 1024 \<longrightarrow> a < 2 powi (find_up a e0 + 1))"
proof (induction a e0 rule: find_up.induct)
  case (1 a e)
  show ?case
  proof (cases "1024 \<le> e \<or> a < 2 powi (e + 1)")
    case True
    then have "find_up a e = e"
      by (subst find_up.simps) simp
    then show ?thesis
      using True "1.prems" by auto
  next
    case False
    then have u: "find_up a e = find_up a (e + 1)"
      by (subst find_up.simps) simp
    from False have "e + 1 \<le> 1024" "2 powi (e + 1) \<le> a"
      by simp_all
    from "1.IH" [OF False this] show ?thesis
      unfolding u by simp
  qed
qed

lemma find_down_spec:
  "- 1022 \<le> e0 \<Longrightarrow> a < 2 powi (e0 + 1) \<Longrightarrow>
   - 1022 \<le> find_down a e0 \<and> find_down a e0 \<le> e0 \<and> a < 2 powi (find_down a e0 + 1) \<and>
   (- 1022 < find_down a e0 \<longrightarrow> 2 powi (find_down a e0) \<le> a)"
proof (induction a e0 rule: find_down.induct)
  case (1 a e)
  show ?case
  proof (cases "e \<le> - 1022 \<or> 2 powi e \<le> a")
    case True
    then have "find_down a e = e"
      by (subst find_down.simps) simp
    then show ?thesis
      using True "1.prems" by auto
  next
    case False
    then have u: "find_down a e = find_down a (e - 1)"
      by (subst find_down.simps) simp
    from False have "- 1022 \<le> e - 1" "a < 2 powi (e - 1 + 1)"
      by simp_all
    from "1.IH" [OF False this] show ?thesis
      unfolding u by simp
  qed
qed

lemma binade_spec:
  "- 1022 \<le> binade a \<and> binade a \<le> 1024 \<and>
   (- 1022 < binade a \<longrightarrow> 2 powi (binade a) \<le> a) \<and>
   (binade a < 1024 \<longrightarrow> a < 2 powi (binade a + 1))"
proof (cases "1 \<le> a")
  case True
  then have "2 powi 0 \<le> a"
    by simp
  from find_up_spec [OF _ this] True show ?thesis
    by (simp add: binade_def)
next
  case False
  then have "a < 2 powi (- 1 + 1)"
    by simp
  from find_down_spec [OF _ this] False show ?thesis
    by (simp add: binade_def)
qed

lemma binade_unique:
  assumes "- 1022 \<le> e" "e \<le> 1024" "- 1022 < e \<longrightarrow> 2 powi e \<le> a"
    "e < 1024 \<longrightarrow> a < 2 powi (e + 1)"
  shows "binade a = e"
proof (rule ccontr)
  assume ne: "binade a \<noteq> e"
  note b = binade_spec [of a]
  show False
  proof (cases "binade a < e")
    case True
    then have "2 powi e \<le> a" "a < 2 powi (binade a + 1)"
      using assms b by auto
    moreover have "(2::real) powi (binade a + 1) \<le> 2 powi e"
      using True by (intro power_int_increasing) auto
    ultimately show False
      by simp
  next
    case False
    then have lt: "e < binade a"
      using ne by simp
    then have "2 powi (binade a) \<le> a" "a < 2 powi (e + 1)"
      using assms b by auto
    moreover have "(2::real) powi (e + 1) \<le> 2 powi (binade a)"
      using lt by (intro power_int_increasing) auto
    ultimately show False
      by simp
  qed
qed

lemma round_half_even_int [simp]: "round_half_even (of_int m) = m"
  by (simp add: round_half_even_def)

lemma round_half_even_zero [simp]: "round_half_even 0 = 0"
  by (simp add: round_half_even_def)

lemma round_half_even_bounds:
  "\<lfloor>x\<rfloor> \<le> round_half_even x \<and> round_half_even x \<le> \<lfloor>x\<rfloor> + 1"
  by (simp add: round_half_even_def)


lemma pow2_add: "(2::real) powi (i + j) = 2 powi i * 2 powi j"
  by (simp add: power_int_add)

lemma pow2_pos [simp]: "0 < (2::real) powi i"
  by simp

lemma pow2_less_iff: "(2::real) powi i < 2 powi j \<longleftrightarrow> i < j"
proof
  assume "(2::real) powi i < 2 powi j"
  show "i < j"
  proof (rule ccontr)
    assume "\<not> i < j"
    then have "(2::real) powi j \<le> 2 powi i"
      by (intro power_int_increasing) auto
    with \<open>(2::real) powi i < 2 powi j\<close> show False
      by simp
  qed
next
  assume "i < j"
  then show "(2::real) powi i < 2 powi j"
    by (intro power_int_strict_increasing) auto
qed

text \<open>The mantissa that rounding picks, and what it says about the rounded value.\<close>

lemma mantissa_bounds:
  assumes "0 \<le> a" "binade a < 1024"
  shows "0 \<le> round_half_even (a / 2 powi (binade a - 52))"
    and "round_half_even (a / 2 powi (binade a - 52)) \<le> 2 ^ 53"
    and "- 1022 < binade a \<Longrightarrow> 2 ^ 52 \<le> round_half_even (a / 2 powi (binade a - 52))"
proof -
  let ?e = "binade a"
  let ?q = "(2::real) powi (?e - 52)"
  let ?x = "a / ?q"
  note b = binade_spec [of a]
  have q53: "2 powi (?e + 1) = 2 ^ 53 * ?q"
    using pow2_add [of 53 "?e - 52"] by (simp add: add.commute)
  have q52: "2 powi ?e = 2 ^ 52 * ?q"
    using pow2_add [of 52 "?e - 52"] by simp
  have "0 \<le> ?x"
    using assms(1) by simp
  then have "0 \<le> \<lfloor>?x\<rfloor>"
    by simp
  then show "0 \<le> round_half_even ?x"
    using round_half_even_bounds [of ?x] by linarith
  have "a < 2 ^ 53 * ?q"
    using b assms(2) q53 by simp
  then have "?x < 2 ^ 53"
    by (simp add: pos_divide_less_eq)
  then have "\<lfloor>?x\<rfloor> < 2 ^ 53"
    by (simp add: floor_less_iff)
  then show "round_half_even ?x \<le> 2 ^ 53"
    using round_half_even_bounds [of ?x] by linarith
  show "2 ^ 52 \<le> round_half_even ?x" if "- 1022 < ?e"
  proof -
    have "2 ^ 52 * ?q \<le> a"
      using b that q52 by simp
    then have "2 ^ 52 \<le> ?x"
      by (simp add: pos_le_divide_eq)
    then have "2 ^ 52 \<le> \<lfloor>?x\<rfloor>"
      by (simp add: le_floor_iff)
    then show ?thesis
      using round_half_even_bounds [of ?x] by linarith
  qed
qed

lemma rounded_value_fixed:
  assumes "0 \<le> a" "binade a < 1024"
    "m = round_half_even (a / 2 powi (binade a - 52))" "m \<noteq> 0"
    "v = of_int m * 2 powi (binade a - 52)" "v < 2 powi 1024"
  shows "binade v < 1024 \<and>
         of_int (round_half_even (v / 2 powi (binade v - 52))) * 2 powi (binade v - 52) = v"
proof -
  let ?e = "binade a"
  let ?q = "(2::real) powi (?e - 52)"
  note b = binade_spec [of a]
  note mb = mantissa_bounds [OF assms(1,2), folded assms(3)]
  have q53: "2 powi (?e + 1) = 2 ^ 53 * ?q"
    using pow2_add [of 53 "?e - 52"] by (simp add: add.commute)
  have q52: "2 powi ?e = 2 ^ 52 * ?q"
    using pow2_add [of 52 "?e - 52"] by simp
  show ?thesis
  proof (cases "m < 2 ^ 53")
    case True
    have lo: "- 1022 < ?e \<longrightarrow> 2 powi ?e \<le> v"
    proof
      assume "- 1022 < ?e"
      then have "(2::real) ^ 52 \<le> of_int m"
        using mb(3) by (metis of_int_le_iff of_int_numeral of_int_power)
      then show "2 powi ?e \<le> v"
        unfolding q52 assms(5) by (simp add: mult_right_mono)
    qed
    have "(of_int m :: real) < 2 ^ 53"
      using True by (metis of_int_less_iff of_int_numeral of_int_power)
    then have hi: "v < 2 powi (?e + 1)"
      unfolding q53 assms(5) by (simp add: mult_strict_right_mono)
    have e: "binade v = ?e"
      using b lo hi by (intro binade_unique) auto
    have "v / ?q = of_int m"
      unfolding assms(5) by simp
    then have r: "round_half_even (v / ?q) = m"
      by (simp only: round_half_even_int)
    show ?thesis
      unfolding e r using assms(2) assms(5) [symmetric] by simp
  next
    case False
    then have m: "m = 2 ^ 53"
      using mb(2) by simp
    then have v: "v = 2 powi (?e + 1)"
      unfolding q53 assms(5) by simp
    have e1: "?e + 1 < 1024"
      using assms(6) unfolding v by (rule pow2_less_iff [THEN iffD1])
    have "v < 2 powi (?e + 1 + 1)"
      unfolding v by (simp add: pow2_less_iff)
    then have e: "binade v = ?e + 1"
      using b e1 v by (intro binade_unique) auto
    have q': "2 powi (?e + 1 - 52) = 2 * ?q"
      using pow2_add [of 1 "?e - 52"] by (simp add: add.commute)
    have "v / (2 * ?q) = of_int (2 ^ 52)"
      unfolding assms(5) m by simp
    then have r: "round_half_even (v / (2 * ?q)) = 2 ^ 52"
      by (simp only: round_half_even_int)
    have "of_int (2 ^ 52) * (2 * ?q) = v"
      unfolding assms(5) m by simp
    then show ?thesis
      unfolding e q' r using e1 by simp
  qed
qed


lemma round_double_zero: "round_double 0 = Fin 0"
proof -
  note b = binade_spec [of 0]
  have "binade 0 < 1024"
  proof (rule ccontr)
    assume "\<not> binade 0 < 1024"
    then have "- 1022 < binade 0"
      by simp
    with b have "(2::real) powi binade 0 \<le> 0"
      by simp
    then show False
      using pow2_pos [of "binade 0"] by linarith
  qed
  then show ?thesis
    by (simp add: round_double_def signed_zero_def Let_def)
qed

lemma round_double_fixed:
  assumes "round_double r = Fin v"
  shows "round_double v = Fin v"
proof -
  let ?e = "binade \<bar>r\<bar>"
  let ?q = "(2::real) powi (?e - 52)"
  let ?m = "round_half_even (\<bar>r\<bar> / ?q)"
  let ?w = "of_int ?m * ?q"
  from assms have e: "?e < 1024" and w: "?w < 2 powi 1024"
    by (auto simp: round_double_def Let_def signed_inf_def split: if_splits)
  show ?thesis
  proof (cases "?m = 0")
    case True
    with assms e w have "v = 0"
      by (auto simp: round_double_def Let_def signed_zero_def split: if_splits)
    then show ?thesis
      by (simp add: round_double_zero)
  next
    case False
    with assms e w have v: "v = (if r < 0 then - ?w else ?w)"
      by (auto simp: round_double_def Let_def split: if_splits)
    have "0 \<le> ?m"
      using mantissa_bounds(1) [of "\<bar>r\<bar>"] e by simp
    with False have "0 < ?m"
      by simp
    then have pos: "0 < ?w"
      by simp
    then have abs: "\<bar>v\<bar> = ?w" and neg: "v < 0 \<longleftrightarrow> r < 0"
      using v by auto
    from rounded_value_fixed [OF _ e refl False refl w]
    have f: "binade ?w < 1024"
      "of_int (round_half_even (?w / 2 powi (binade ?w - 52))) * 2 powi (binade ?w - 52) = ?w"
      by simp_all
    have nz: "round_half_even (?w / 2 powi (binade ?w - 52)) \<noteq> 0"
      using f(2) pos by auto
    have "round_double v = Fin (if r < 0 then - ?w else ?w)"
      unfolding round_double_def Let_def abs neg f(2) using f(1) w nz by simp
    then show ?thesis
      by (simp only: v)
  qed
qed

lemma representable_round_double [simp]: "representable (round_double r)"
  by (cases "round_double r") (simp_all add: representable_def round_double_fixed)

lemma representable_specials [simp]:
  "representable NaN" "representable PInf" "representable NInf" "representable NegZero"
  "representable (Fin 0)" "representable (signed_zero b)" "representable (signed_inf b)"
  by (simp_all add: representable_def signed_zero_def signed_inf_def round_double_zero)

lemma representable_dsub [simp]: "representable (dsub a b)"
  by (cases a) (simp_all add: dsub_def)

lemma representable_dmul [simp]: "representable (dmul a b)"
  by (simp add: dmul_def)

lemma representable_ddiv [simp]: "representable (ddiv a b)"
  by (simp add: ddiv_def)

lemma dmul_one: "representable a \<Longrightarrow> dmul a (Fin 1) = a"
  by (cases a) (auto simp: dmul_def signed_zero_def signed_inf_def representable_def)

text \<open>Overflow gives an infinity, and a result below half the smallest double a zero.\<close>

lemma round_double_overflow: "2 powi 1024 \<le> \<bar>r\<bar> \<Longrightarrow> round_double r = signed_inf (r < 0)"
proof -
  assume a: "2 powi 1024 \<le> \<bar>r\<bar>"
  have "binade \<bar>r\<bar> = 1024"
    using a by (intro binade_unique) simp_all
  then show ?thesis
    by (simp add: round_double_def Let_def)
qed

lemma round_double_underflow:
  assumes "\<bar>r\<bar> < 2 powi (- 1075)"
  shows "round_double r = signed_zero (r < 0)"
proof -
  have "(2::real) powi (- 1075) < 2 powi (- 1022 + 1)"
    by (simp add: pow2_less_iff)
  with assms have "\<bar>r\<bar> < 2 powi (- 1022 + 1)"
    by linarith
  then have e: "binade \<bar>r\<bar> = - 1022"
    by (intro binade_unique) simp_all
  have q: "(2::real) powi (- 1075) = 2 powi (- 1074) / 2"
    using pow2_add [of "- 1" "- 1074"] by (simp add: power_int_minus)
  have "\<bar>r\<bar> / 2 powi (- 1074) < 1 / 2"
    using assms unfolding q by (simp add: pos_divide_less_eq)
  moreover have "0 \<le> \<bar>r\<bar> / 2 powi (- 1074)"
    by simp
  ultimately have "\<lfloor>\<bar>r\<bar> / 2 powi (- 1074)\<rfloor> = 0"
    by (intro floor_unique) simp_all
  with \<open>\<bar>r\<bar> / 2 powi (- 1074) < 1 / 2\<close>
  have "round_half_even (\<bar>r\<bar> / 2 powi (- 1074)) = 0"
    by (simp add: round_half_even_def)
  then show ?thesis
    by (simp add: round_double_def e Let_def)
qed

text \<open>
  A difference that needs 55 bits is rounded: 1 minus the double nearest to 0.1 is
  \<open>0x1.ccccccccccccdp-1\<close>.
\<close>

lemma dsub_rounds:
  "dsub (Fin 1) (Fin (3602879701896397 / 36028797018963968)) =
     Fin (8106479329266893 / 9007199254740992)"
  by (simp add: dsub_def round_double_def binade_def find_up.simps find_down.simps
      round_half_even_def Let_def)

subsection \<open>States and traces\<close>

lemma goals_sent_emit:
  "goals_sent (emit e s) = goals_sent s @ (case e of SendGoal g \<Rightarrow> [g] | _ \<Rightarrow> [])"
  by (simp add: goals_sent_def emit_def)

lemma wait_durations_emit:
  "wait_durations (emit e s) = wait_durations s @ (case e of WaitForServer d \<Rightarrow> [d] | _ \<Rightarrow> [])"
  by (simp add: wait_durations_def emit_def)

lemma wait_durations_tick [simp]: "wait_durations (tick s) = wait_durations s"
  by (simp add: wait_durations_def tick_def)

lemma ros_ok_never: "shutdown_at w = None \<Longrightarrow> ros_ok w s"
  by (simp add: ros_ok_def)

text \<open>What a press of the primary button does when the four entries and the client exist.\<close>

lemma onMouse_button_down:
  assumes "mat_at (cameraIntrinsics s) 0 2 = Some cx" "mat_at (cameraIntrinsics s) 0 0 = Some fx"
    "mat_at (cameraIntrinsics s) 1 2 = Some cy" "mat_at (cameraIntrinsics s) 1 1 = Some fy"
    "pointHeadClient s = Some c"
  shows "onMouse w EVENT_LBUTTONDOWN u v flags s =
     Returns (emit (SendGoal
        \<lparr>target = \<lparr>header = \<lparr>frame_id = cameraFrame, stamp = time_now w (clock s)\<rparr>,
                   point = project u v cx fx cy fy\<rparr>,
         pointing_axis = \<lparr>point_x = Fin 0, point_y = Fin 0, point_z = Fin 1\<rparr>,
         pointing_frame = cameraFrame,
         min_duration = Duration 0.5,
         max_velocity = Fin 1\<rparr>)
       (emit (Log Info [Str ''Pixel selected ('', Num u, Str '', '', Num v,
                        Str '') Making REEM look to that direction'']) s))"
  using assms by (simp add: onMouse_def emit_def Let_def)

lemma getCameraIntrinsics_entries:
  "cameraIntrinsics (getCameraIntrinsics \<lparr>msg_K = [k0, k1, k2, k3, k4, k5, k6, k7, k8]\<rparr> s) =
     \<lparr>mat_rows = 3, mat_cols = 3,
      mat_data = [k0, Fin 0, k2, Fin 0, k4, k5, Fin 0, Fin 0, Fin 1]\<rparr>"
  by (simp add: getCameraIntrinsics_def mat_zeros_def mat_set_def double_of_int_def Let_def
      numeral_eq_Suc)

lemma ready_state_mat:
  "cameraIntrinsics ready_state = \<lparr>mat_rows = 3, mat_cols = 3,
      mat_data = [Fin 500, Fin 0, Fin 320, Fin 0, Fin 500, Fin 240, Fin 0, Fin 0, Fin 1]\<rparr>"
  by (simp add: ready_state_def K0_def getCameraIntrinsics_entries)

lemma ready_state_client: "pointHeadClient ready_state = Some head_action_name"
  by (simp add: ready_state_def)

lemma ready_state_goals: "goals_sent ready_state = []"
  by (simp add: ready_state_def goals_sent_def getCameraIntrinsics_def initial_state_def Let_def)

lemma ready_state_entries:
  "mat_at (cameraIntrinsics ready_state) 0 0 = Some (Fin 500)"
  "mat_at (cameraIntrinsics ready_state) 1 1 = Some (Fin 500)"
  "mat_at (cameraIntrinsics ready_state) 0 2 = Some (Fin 320)"
  "mat_at (cameraIntrinsics ready_state) 1 2 = Some (Fin 240)"
  by (simp_all add: ready_state_mat mat_at_def)

section \<open>The camera model\<close>

text \<open>
  Claim C1. For every integer pixel (u, v) and every populated intrinsic matrix with
  entries fx, fy, cx, cy, a press of the primary button computes x = (u - cx) / fx and
  y = (v - cy) / fy in double arithmetic (the difference and the quotient are each
  rounded) with the fixed depth Z = 1.0, and the ray point of the goal it sends is
  (x * Z, y * Z, Z) in the camera optical frame. Multiplying a double by 1.0 does not
  change it, so the point is (x, y, 1). Nothing compares u or v with the image size: the
  statement holds for all integers u and v.
\<close>

theorem onMouse_projects_pixel:
  assumes "mat_at (cameraIntrinsics s) 0 0 = Some fx" "mat_at (cameraIntrinsics s) 1 1 = Some fy"
    "mat_at (cameraIntrinsics s) 0 2 = Some cx" "mat_at (cameraIntrinsics s) 1 2 = Some cy"
    "pointHeadClient s = Some c"
  shows "\<exists>s' g. onMouse w EVENT_LBUTTONDOWN u v flags s = Returns s' \<and>
           goals_sent s' = goals_sent s @ [g] \<and>
           frame_id (header (target g)) = cameraFrame \<and>
           point (target g) =
             \<lparr>point_x = dmul (ddiv (dsub (double_of_int u) cx) fx) (Fin 1),
              point_y = dmul (ddiv (dsub (double_of_int v) cy) fy) (Fin 1),
              point_z = Fin 1\<rparr> \<and>
           point (target g) =
             \<lparr>point_x = ddiv (dsub (double_of_int u) cx) fx,
              point_y = ddiv (dsub (double_of_int v) cy) fy,
              point_z = Fin 1\<rparr>"
  using assms
  by (simp add: onMouse_button_down [where c = c] goals_sent_emit project_def dmul_one Let_def)

text \<open>
  The example of the specification: the click (420, 240) gives the ray (0.2, 0, 1),
  where 0.2 is the double nearest to one fifth, \<open>3602879701896397 / 2 ^ 54\<close>
  (in C notation \<open>0x1.999999999999ap-3\<close>).
\<close>

theorem onMouse_projects_pixel_witness:
  "mat_at (cameraIntrinsics ready_state) 0 0 = Some (Fin 500) \<and>
   mat_at (cameraIntrinsics ready_state) 1 1 = Some (Fin 500) \<and>
   mat_at (cameraIntrinsics ready_state) 0 2 = Some (Fin 320) \<and>
   mat_at (cameraIntrinsics ready_state) 1 2 = Some (Fin 240) \<and>
   pointHeadClient ready_state = Some head_action_name \<and>
   (\<exists>s' g. onMouse quiet_env EVENT_LBUTTONDOWN 420 240 0 ready_state = Returns s' \<and>
      goals_sent s' = [g] \<and>
      point (target g) =
        \<lparr>point_x = Fin (3602879701896397 / 18014398509481984), point_y = Fin 0,
         point_z = Fin 1\<rparr>)"
proof -
  note h = ready_state_entries
  have e: "ddiv (dsub (double_of_int 420) (Fin 320)) (Fin 500) =
        Fin (3602879701896397 / 18014398509481984)"
      "ddiv (dsub (double_of_int 240) (Fin 240)) (Fin 500) = Fin 0"
    by (simp_all add: ddiv_def dsub_def double_of_int_def signed_zero_def round_double_def
        binade_def find_up.simps find_down.simps round_half_even_def Let_def)
  from onMouse_projects_pixel [OF h ready_state_client, of quiet_env 420 240 0]
  obtain s' g where "onMouse quiet_env EVENT_LBUTTONDOWN 420 240 0 ready_state = Returns s'"
    and "goals_sent s' = [g]"
    and "point (target g) =
        \<lparr>point_x = Fin (3602879701896397 / 18014398509481984), point_y = Fin 0,
         point_z = Fin 1\<rparr>"
    by (auto simp: e ready_state_goals)
  then show ?thesis
    using h ready_state_client by blast
qed

text \<open>
  Claim C9. For all positive fx and fy, projecting the principal point itself
  (u = cx and v = cy) gives exactly the ray point (0, 0, 1).
\<close>

theorem project_principal_point:
  assumes "dpositive fx" "dpositive fy"
    "deq (double_of_int u) cx" "deq (double_of_int v) cy"
    "mat_at (cameraIntrinsics s) 0 0 = Some fx" "mat_at (cameraIntrinsics s) 1 1 = Some fy"
    "mat_at (cameraIntrinsics s) 0 2 = Some cx" "mat_at (cameraIntrinsics s) 1 2 = Some cy"
    "pointHeadClient s = Some c"
  shows "project u v cx fx cy fy = \<lparr>point_x = Fin 0, point_y = Fin 0, point_z = Fin 1\<rparr> \<and>
         (\<exists>s' g. onMouse w EVENT_LBUTTONDOWN u v flags s = Returns s' \<and>
            goals_sent s' = goals_sent s @ [g] \<and>
            point (target g) = \<lparr>point_x = Fin 0, point_y = Fin 0, point_z = Fin 1\<rparr>)"
proof -
  have z: "dsub (double_of_int i) a = Fin 0" if "deq (double_of_int i) a" for i a
    using that by (cases a) (auto simp: deq_def dsub_def double_of_int_def signed_zero_def)
  have d: "ddiv (Fin 0) f = Fin 0" if "dpositive f" for f
    using that by (cases f) (auto simp: ddiv_def signed_zero_def)
  have p: "project u v cx fx cy fy = \<lparr>point_x = Fin 0, point_y = Fin 0, point_z = Fin 1\<rparr>"
    using assms(1-4) by (simp add: project_def z d dmul_one Let_def)
  show ?thesis
    using assms(5-9) p
    by (simp add: onMouse_button_down [where c = c] goals_sent_emit)
qed

theorem project_principal_point_witness:
  "dpositive (Fin 500) \<and> deq (double_of_int 320) (Fin 320) \<and> deq (double_of_int 240) (Fin 240) \<and>
   mat_at (cameraIntrinsics ready_state) 0 0 = Some (Fin 500) \<and>
   mat_at (cameraIntrinsics ready_state) 1 1 = Some (Fin 500) \<and>
   mat_at (cameraIntrinsics ready_state) 0 2 = Some (Fin 320) \<and>
   mat_at (cameraIntrinsics ready_state) 1 2 = Some (Fin 240) \<and>
   pointHeadClient ready_state = Some head_action_name \<and>
   project 320 240 (Fin 320) (Fin 500) (Fin 240) (Fin 500) =
     \<lparr>point_x = Fin 0, point_y = Fin 0, point_z = Fin 1\<rparr> \<and>
   (\<exists>s' g. onMouse quiet_env EVENT_LBUTTONDOWN 320 240 0 ready_state = Returns s' \<and>
      goals_sent s' = [g] \<and>
      point (target g) = \<lparr>point_x = Fin 0, point_y = Fin 0, point_z = Fin 1\<rparr>)"
proof -
  have p: "dpositive (Fin 500)"
    by simp
  have q: "deq (double_of_int 320) (Fin 320)" "deq (double_of_int 240) (Fin 240)"
    by (simp_all add: deq_def double_of_int_def)
  note h = ready_state_entries
  from project_principal_point [OF p p q h ready_state_client, of quiet_env 0]
  show ?thesis
    using p q h ready_state_client by (simp add: ready_state_goals)
qed

text \<open>
  The hypothesis on the focal lengths is needed: with fx = fy = 0 the same click gives
  0/0, which is NaN.
\<close>

lemma project_zero_focal_length:
  "project 320 240 (Fin 320) (Fin 0) (Fin 240) (Fin 0) =
     \<lparr>point_x = NaN, point_y = NaN, point_z = Fin 1\<rparr>"
  by (simp add: project_def ddiv_def dsub_def dmul_def double_of_int_def signed_zero_def Let_def)

text \<open>With a focal length as small as the smallest double the quotient overflows.\<close>

lemma project_overflow:
  "point_x (project 420 240 (Fin 320) (Fin (2 powi (- 1074))) (Fin 240) (Fin 500)) = PInf"
proof -
  have d: "dsub (double_of_int 420) (Fin 320) = Fin 100"
    by (simp add: dsub_def double_of_int_def round_double_def binade_def find_up.simps
        find_down.simps round_half_even_def Let_def)
  have "(2::real) powi 1024 \<le> \<bar>100 / 2 powi (- 1074)\<bar>"
    by (simp add: power_int_minus)
  then have "round_double (100 / 2 powi (- 1074)) = PInf"
    by (simp only: round_double_overflow) (simp add: signed_inf_def)
  then have "ddiv (Fin 100) (Fin (2 powi (- 1074))) = PInf"
    by (simp add: ddiv_def)
  then show ?thesis
    by (simp add: project_def d dmul_one Let_def)
qed

section \<open>Intrinsics acquisition\<close>

text \<open>
  Claim C4. Given a calibration message whose K is the row-major array k0 ... k8, the
  callback stores a 3 by 3 matrix with entry (0,0) = k0 (fx), (1,1) = k4 (fy),
  (0,2) = k2 (cx), (1,2) = k5 (cy), (2,2) = 1 and the remaining four entries zero, and
  sets the received flag.
\<close>

theorem getCameraIntrinsics_stores_matrix:
  assumes "msg_K msg = [k0, k1, k2, k3, k4, k5, k6, k7, k8]"
  shows "mat_rows (cameraIntrinsics (getCameraIntrinsics msg s)) = 3 \<and>
         mat_cols (cameraIntrinsics (getCameraIntrinsics msg s)) = 3 \<and>
         mat_at (cameraIntrinsics (getCameraIntrinsics msg s)) 0 0 = Some k0 \<and>
         mat_at (cameraIntrinsics (getCameraIntrinsics msg s)) 1 1 = Some k4 \<and>
         mat_at (cameraIntrinsics (getCameraIntrinsics msg s)) 0 2 = Some k2 \<and>
         mat_at (cameraIntrinsics (getCameraIntrinsics msg s)) 1 2 = Some k5 \<and>
         mat_at (cameraIntrinsics (getCameraIntrinsics msg s)) 2 2 = Some (Fin 1) \<and>
         mat_at (cameraIntrinsics (getCameraIntrinsics msg s)) 0 1 = Some (Fin 0) \<and>
         mat_at (cameraIntrinsics (getCameraIntrinsics msg s)) 1 0 = Some (Fin 0) \<and>
         mat_at (cameraIntrinsics (getCameraIntrinsics msg s)) 2 0 = Some (Fin 0) \<and>
         mat_at (cameraIntrinsics (getCameraIntrinsics msg s)) 2 1 = Some (Fin 0) \<and>
         intrinsicsReceived (getCameraIntrinsics msg s)"
proof -
  have m: "cameraIntrinsics (getCameraIntrinsics msg s) =
     \<lparr>mat_rows = 3, mat_cols = 3,
      mat_data = [k0, Fin 0, k2, Fin 0, k4, k5, Fin 0, Fin 0, Fin 1]\<rparr>"
    using assms
    by (simp add: getCameraIntrinsics_def mat_zeros_def mat_set_def double_of_int_def Let_def
        numeral_eq_Suc)
  have r: "intrinsicsReceived (getCameraIntrinsics msg s)"
    by (simp add: getCameraIntrinsics_def Let_def)
  show ?thesis
    unfolding m using r by (simp add: mat_at_def)
qed

theorem getCameraIntrinsics_stores_matrix_witness:
  "msg_K \<lparr>msg_K = K0\<rparr> =
     [Fin 500, Fin 0, Fin 320, Fin 0, Fin 500, Fin 240, Fin 0, Fin 0, Fin 1] \<and>
   mat_at (cameraIntrinsics (getCameraIntrinsics \<lparr>msg_K = K0\<rparr> initial_state)) 0 0 = Some (Fin 500) \<and>
   mat_at (cameraIntrinsics (getCameraIntrinsics \<lparr>msg_K = K0\<rparr> initial_state)) 1 1 = Some (Fin 500) \<and>
   mat_at (cameraIntrinsics (getCameraIntrinsics \<lparr>msg_K = K0\<rparr> initial_state)) 0 2 = Some (Fin 320) \<and>
   mat_at (cameraIntrinsics (getCameraIntrinsics \<lparr>msg_K = K0\<rparr> initial_state)) 1 2 = Some (Fin 240) \<and>
   mat_at (cameraIntrinsics (getCameraIntrinsics \<lparr>msg_K = K0\<rparr> initial_state)) 2 2 = Some (Fin 1) \<and>
   mat_at (cameraIntrinsics (getCameraIntrinsics \<lparr>msg_K = K0\<rparr> initial_state)) 0 1 = Some (Fin 0) \<and>
   intrinsicsReceived (getCameraIntrinsics \<lparr>msg_K = K0\<rparr> initial_state)"
proof -
  have h: "msg_K \<lparr>msg_K = K0\<rparr> =
     [Fin 500, Fin 0, Fin 320, Fin 0, Fin 500, Fin 240, Fin 0, Fin 0, Fin 1]"
    by (simp add: K0_def)
  from getCameraIntrinsics_stores_matrix [OF h, of initial_state] show ?thesis
    using h by simp
qed

section \<open>The interaction controller\<close>

text \<open>
  Claim C3. For every mouse event whose type is not the press of the primary button
  (release and pointer move among them) the handler returns in the state it was called
  in: no goal is built and nothing is sent. With the intrinsics stored and the client
  created, a goal is sent if and only if the event is the press of the primary button.
\<close>

theorem onMouse_dispatches_iff_button_down:
  "(event \<noteq> EVENT_LBUTTONDOWN \<longrightarrow> onMouse w event u v flags s = Returns s) \<and>
   (mat_rows (cameraIntrinsics s) = 3 \<and> mat_cols (cameraIntrinsics s) = 3 \<and>
    length (mat_data (cameraIntrinsics s)) = 9 \<and> pointHeadClient s \<noteq> None \<longrightarrow>
      ((\<exists>g. goals_sent (outcome_state (onMouse w event u v flags s)) = goals_sent s @ [g])
        \<longleftrightarrow> event = EVENT_LBUTTONDOWN))"
proof (intro conjI impI)
  assume "event \<noteq> EVENT_LBUTTONDOWN"
  then show "onMouse w event u v flags s = Returns s"
    by (simp add: onMouse_def)
next
  assume pre: "mat_rows (cameraIntrinsics s) = 3 \<and> mat_cols (cameraIntrinsics s) = 3 \<and>
    length (mat_data (cameraIntrinsics s)) = 9 \<and> pointHeadClient s \<noteq> None"
  then obtain c where c: "pointHeadClient s = Some c"
    by auto
  from pre obtain cx fx cy fy where m:
    "mat_at (cameraIntrinsics s) 0 2 = Some cx" "mat_at (cameraIntrinsics s) 0 0 = Some fx"
    "mat_at (cameraIntrinsics s) 1 2 = Some cy" "mat_at (cameraIntrinsics s) 1 1 = Some fy"
    by (simp add: mat_at_def)
  show "(\<exists>g. goals_sent (outcome_state (onMouse w event u v flags s)) = goals_sent s @ [g])
        \<longleftrightarrow> event = EVENT_LBUTTONDOWN"
  proof (cases "event = EVENT_LBUTTONDOWN")
    case True
    then show ?thesis
      by (simp add: onMouse_button_down [OF m c] goals_sent_emit)
  next
    case False
    then show ?thesis
      by (simp add: onMouse_def)
  qed
qed

theorem onMouse_dispatches_iff_button_down_witness:
  "EVENT_LBUTTONUP \<noteq> EVENT_LBUTTONDOWN \<and> EVENT_MOUSEMOVE \<noteq> EVENT_LBUTTONDOWN \<and>
   onMouse quiet_env EVENT_LBUTTONUP 420 240 0 ready_state = Returns ready_state \<and>
   onMouse quiet_env EVENT_MOUSEMOVE 420 240 0 ready_state = Returns ready_state \<and>
   mat_rows (cameraIntrinsics ready_state) = 3 \<and> mat_cols (cameraIntrinsics ready_state) = 3 \<and>
   length (mat_data (cameraIntrinsics ready_state)) = 9 \<and> pointHeadClient ready_state \<noteq> None \<and>
   (\<exists>g. goals_sent (outcome_state (onMouse quiet_env EVENT_LBUTTONDOWN 420 240 0 ready_state)) = [g]) \<and>
   goals_sent (outcome_state (onMouse quiet_env EVENT_LBUTTONUP 420 240 0 ready_state)) = []"
proof -
  have ne: "EVENT_LBUTTONUP \<noteq> EVENT_LBUTTONDOWN" "EVENT_MOUSEMOVE \<noteq> EVENT_LBUTTONDOWN"
    by (simp_all add: EVENT_LBUTTONUP_def EVENT_LBUTTONDOWN_def EVENT_MOUSEMOVE_def)
  have pre: "mat_rows (cameraIntrinsics ready_state) = 3 \<and>
    mat_cols (cameraIntrinsics ready_state) = 3 \<and>
    length (mat_data (cameraIntrinsics ready_state)) = 9 \<and> pointHeadClient ready_state \<noteq> None"
    by (simp add: ready_state_mat ready_state_client)
  note up = onMouse_dispatches_iff_button_down [of EVENT_LBUTTONUP quiet_env 420 240 0 ready_state]
  note mv = onMouse_dispatches_iff_button_down [of EVENT_MOUSEMOVE quiet_env 420 240 0 ready_state]
  note dn = onMouse_dispatches_iff_button_down [of EVENT_LBUTTONDOWN quiet_env 420 240 0 ready_state]
  from up ne
  have 1: "onMouse quiet_env EVENT_LBUTTONUP 420 240 0 ready_state = Returns ready_state"
    by blast
  from mv ne
  have 2: "onMouse quiet_env EVENT_MOUSEMOVE 420 240 0 ready_state = Returns ready_state"
    by blast
  from dn pre
  have 3: "\<exists>g. goals_sent (outcome_state
      (onMouse quiet_env EVENT_LBUTTONDOWN 420 240 0 ready_state)) = [g]"
    by (simp add: ready_state_goals)
  show ?thesis
    using ne 1 2 3 pre by (simp add: ready_state_goals)
qed

text \<open>
  Claim C6. For every qualifying click the goal sent has the camera optical frame as
  pointing frame, the fixed unit vector (0, 0, 1) as pointing axis, a minimal duration of
  0.5 seconds, a maximal velocity of 1.0, and as target the ray point projected from the
  clicked pixel, ((u - cx) / fx * 1, (v - cy) / fy * 1, 1) in double arithmetic, stamped
  with that frame identifier.
\<close>

theorem onMouse_goal_fields:
  assumes "mat_at (cameraIntrinsics s) 0 0 = Some fx" "mat_at (cameraIntrinsics s) 1 1 = Some fy"
    "mat_at (cameraIntrinsics s) 0 2 = Some cx" "mat_at (cameraIntrinsics s) 1 2 = Some cy"
    "pointHeadClient s = Some c"
  shows "\<exists>s' g. onMouse w EVENT_LBUTTONDOWN u v flags s = Returns s' \<and>
           goals_sent s' = goals_sent s @ [g] \<and>
           pointing_frame g = cameraFrame \<and>
           pointing_axis g = \<lparr>point_x = Fin 0, point_y = Fin 0, point_z = Fin 1\<rparr> \<and>
           min_duration g = Duration (1/2) \<and>
           max_velocity g = Fin 1 \<and>
           point (target g) = project u v cx fx cy fy \<and>
           point (target g) =
             \<lparr>point_x = dmul (ddiv (dsub (double_of_int u) cx) fx) (Fin 1),
              point_y = dmul (ddiv (dsub (double_of_int v) cy) fy) (Fin 1),
              point_z = Fin 1\<rparr> \<and>
           frame_id (header (target g)) = cameraFrame \<and>
           stamp (header (target g)) = time_now w (clock s)"
  using assms
  by (simp add: onMouse_button_down [where c = c] goals_sent_emit project_def Let_def)

theorem onMouse_goal_fields_witness:
  "mat_at (cameraIntrinsics ready_state) 0 0 = Some (Fin 500) \<and>
   mat_at (cameraIntrinsics ready_state) 1 1 = Some (Fin 500) \<and>
   mat_at (cameraIntrinsics ready_state) 0 2 = Some (Fin 320) \<and>
   mat_at (cameraIntrinsics ready_state) 1 2 = Some (Fin 240) \<and>
   pointHeadClient ready_state = Some head_action_name \<and>
   (\<exists>s' g. onMouse quiet_env EVENT_LBUTTONDOWN 100 50 0 ready_state = Returns s' \<and>
      goals_sent s' = [g] \<and>
      pointing_frame g = ''/stereo_optical_frame'' \<and>
      pointing_axis g = \<lparr>point_x = Fin 0, point_y = Fin 0, point_z = Fin 1\<rparr> \<and>
      min_duration g = Duration (1/2) \<and> max_velocity g = Fin 1 \<and>
      point (target g) =
        \<lparr>point_x = Fin (- (7926335344172073 / 18014398509481984)),
         point_y = Fin (- (3422735716801577 / 9007199254740992)), point_z = Fin 1\<rparr> \<and>
      frame_id (header (target g)) = ''/stereo_optical_frame'')"
proof -
  note h = ready_state_entries
  have x: "ddiv (dsub (double_of_int 100) (Fin 320)) (Fin 500) =
      Fin (- (7926335344172073 / 18014398509481984))"
    and y: "ddiv (dsub (double_of_int 50) (Fin 240)) (Fin 500) =
      Fin (- (3422735716801577 / 9007199254740992))"
    by (simp_all add: ddiv_def dsub_def double_of_int_def round_double_def
        binade_def find_up.simps find_down.simps round_half_even_def Let_def)
  have "dmul (ddiv (dsub (double_of_int 100) (Fin 320)) (Fin 500)) (Fin 1) =
      ddiv (dsub (double_of_int 100) (Fin 320)) (Fin 500)"
    and "dmul (ddiv (dsub (double_of_int 50) (Fin 240)) (Fin 500)) (Fin 1) =
      ddiv (dsub (double_of_int 50) (Fin 240)) (Fin 500)"
    by (simp_all add: dmul_one)
  then have e: "project 100 50 (Fin 320) (Fin 500) (Fin 240) (Fin 500) =
      \<lparr>point_x = Fin (- (7926335344172073 / 18014398509481984)),
       point_y = Fin (- (3422735716801577 / 9007199254740992)), point_z = Fin 1\<rparr>"
    by (simp add: project_def x y Let_def)
  from onMouse_goal_fields [OF h ready_state_client, of quiet_env 100 50 0]
  obtain s' g where "onMouse quiet_env EVENT_LBUTTONDOWN 100 50 0 ready_state = Returns s'"
    and "goals_sent s' = [g]"
    and "pointing_frame g = ''/stereo_optical_frame''"
    and "pointing_axis g = \<lparr>point_x = Fin 0, point_y = Fin 0, point_z = Fin 1\<rparr>"
    and "min_duration g = Duration (1/2)" and "max_velocity g = Fin 1"
    and "point (target g) =
        \<lparr>point_x = Fin (- (7926335344172073 / 18014398509481984)),
         point_y = Fin (- (3422735716801577 / 9007199254740992)), point_z = Fin 1\<rparr>"
    and "frame_id (header (target g)) = ''/stereo_optical_frame''"
    by (auto simp: e ready_state_goals cameraFrame_def)
  then show ?thesis
    using h ready_state_client by blast
qed

section \<open>The actuation client\<close>

text \<open>
  With a server that never answers and no shutdown, the loop leaves with the counter at
  \<open>max_iterations\<close>, after one wait more than the counter says: the wait is the first
  conjunct of the loop condition, so it is made once more before the counter is compared.
\<close>

lemma head_client_loop_never_ready:
  "shutdown_at w = None \<Longrightarrow> \<forall>t. \<not> server_up w t \<Longrightarrow> i \<le> max_iterations \<Longrightarrow>
     fst (head_client_loop w i s) = max_iterations \<and>
     wait_durations (snd (head_client_loop w i s)) =
       wait_durations s @ replicate (Suc (max_iterations - i)) (Duration 2)"
proof (induction w i s rule: head_client_loop.induct)
  case (1 w i s)
  let ?s1 = "tick (emit (WaitForServer (Duration 2)) s)"
  have ok: "ros_ok w ?s1"
    using "1.prems"(1) by (rule ros_ok_never)
  show ?case
  proof (cases "i < max_iterations")
    case True
    let ?s2 = "emit (Log Debug [Str ''Waiting for the point_head_action server to come up'']) ?s1"
    have step: "head_client_loop w i s = head_client_loop w (Suc i) ?s2"
      using True ok "1.prems"(2) by (subst head_client_loop.simps) (simp add: waitForServer_def)
    have ih: "fst (head_client_loop w (Suc i) ?s2) = max_iterations \<and>
      wait_durations (snd (head_client_loop w (Suc i) ?s2)) =
        wait_durations ?s2 @ replicate (Suc (max_iterations - Suc i)) (Duration 2)"
      using True ok "1.prems"
      by (intro "1.IH"[of False ?s1]) (simp_all add: waitForServer_def)
    have "Suc (max_iterations - i) = Suc (Suc (max_iterations - Suc i))"
      using True by simp
    then show ?thesis
      unfolding step using ih by (simp add: wait_durations_emit)
  next
    case False
    then have "i = max_iterations"
      using "1.prems"(3) by simp
    then show ?thesis
      by (subst (1 2) head_client_loop.simps) (simp add: waitForServer_def wait_durations_emit)
  qed
qed

text \<open>
  Claim C2 says: if the service never becomes ready, \<open>createPointHeadClient\<close> makes
  exactly 3 waits of at most 2 seconds each (about 6 seconds in all) and then throws.
  The program throws, but after 4 waits of 2 seconds, 8 seconds in all.
\<close>

theorem createPointHeadClient_never_ready:
  assumes "shutdown_at w = None" "\<forall>t. \<not> server_up w t"
  shows "\<exists>s'. createPointHeadClient w s =
           Throws (RuntimeError
             ''Error in createPointHeadClient: head controller action server not available'') s' \<and>
         wait_durations s' = wait_durations s @ [Duration 2, Duration 2, Duration 2, Duration 2] \<and>
         sum_list (map seconds (wait_durations s')) = sum_list (map seconds (wait_durations s)) + 8"
proof -
  let ?s0 = "emit (NewActionClient head_action_name) (s\<lparr>pointHeadClient := Some head_action_name\<rparr>)"
  have l: "fst (head_client_loop w 0 ?s0) = max_iterations \<and>
     wait_durations (snd (head_client_loop w 0 ?s0)) =
       wait_durations ?s0 @ replicate (Suc (max_iterations - 0)) (Duration 2)"
    using assms by (intro head_client_loop_never_ready) simp_all
  have w0: "wait_durations ?s0 = wait_durations s"
    by (simp add: wait_durations_emit) (simp add: wait_durations_def)
  have r: "replicate (Suc (max_iterations - 0)) (Duration 2) =
      [Duration 2, Duration 2, Duration 2, Duration 2]"
    by (simp add: max_iterations_def numeral_eq_Suc)
  obtain n s1 where p: "head_client_loop w 0 ?s0 = (n, s1)"
    by (cases "head_client_loop w 0 ?s0")
  with l w0 r have "n = max_iterations"
    "wait_durations s1 = wait_durations s @ [Duration 2, Duration 2, Duration 2, Duration 2]"
    by simp_all
  then show ?thesis
    using p by (simp add: createPointHeadClient_def Let_def seconds_def)
qed

theorem createPointHeadClient_never_ready_witness:
  "shutdown_at quiet_env = None \<and> (\<forall>t. \<not> server_up quiet_env t) \<and>
   (\<exists>s'. createPointHeadClient quiet_env initial_state =
           Throws (RuntimeError
             ''Error in createPointHeadClient: head controller action server not available'') s' \<and>
         wait_durations s' = [Duration 2, Duration 2, Duration 2, Duration 2] \<and>
         sum_list (map seconds (wait_durations s')) = 8)"
proof -
  have h1: "shutdown_at quiet_env = None" and h2: "\<forall>t. \<not> server_up quiet_env t"
    by (simp_all add: quiet_env_def)
  have i: "wait_durations initial_state = []"
    by (simp add: wait_durations_def initial_state_def)
  from createPointHeadClient_never_ready [OF h1 h2, of initial_state] show ?thesis
    using h1 h2 by (simp add: i)
qed

text \<open>
  The result of the fourth wait is not used: a server that answers it is reported as
  unavailable all the same.
\<close>

lemma createPointHeadClient_late_server:
  "\<exists>s'. createPointHeadClient (quiet_env\<lparr>server_up := (\<lambda>t. 3 \<le> t)\<rparr>) initial_state =
      Throws (RuntimeError
         ''Error in createPointHeadClient: head controller action server not available'') s'"
  by (simp add: createPointHeadClient_def head_client_loop.simps waitForServer_def
      quiet_env_def initial_state_def emit_def tick_def ros_ok_def max_iterations_def Let_def)

section \<open>Effects are only ever appended\<close>

lemma trace_emit: "trace (emit e s) = trace s @ [e]"
  by (simp add: emit_def)

lemma prefix_emit: "prefix xs (trace s) \<Longrightarrow> prefix xs (trace (emit e s))"
  by (simp add: emit_def prefix_def) auto

lemma trace_tick [simp]: "trace (tick s) = trace s"
  by (simp add: tick_def)

lemma trace_getCameraIntrinsics [simp]: "trace (getCameraIntrinsics msg s) = trace s"
  by (simp add: getCameraIntrinsics_def Let_def)

lemma prefix_onMouse:
  "prefix xs (trace s) \<Longrightarrow> prefix xs (trace (outcome_state (onMouse w event u v flags s)))"
  by (auto simp: onMouse_def Let_def intro!: prefix_emit split: option.splits)

lemma prefix_deliver_mouse:
  "prefix xs (trace s) \<Longrightarrow> prefix xs (trace (outcome_state (deliver_mouse w evs s)))"
proof (induction w evs s rule: deliver_mouse.induct)
  case (1 w s)
  then show ?case by simp
next
  case (2 w event u v flags evs s)
  from prefix_onMouse [OF "2.prems", of w event u v flags]
  show ?case
    using "2.IH" by (cases "onMouse w event u v flags s") auto
qed

lemma prefix_waitKey:
  "prefix xs (trace s) \<Longrightarrow> prefix xs (trace (outcome_state (waitKey d w s)))"
  by (simp add: waitKey_def Let_def prefix_deliver_mouse prefix_emit)

lemma prefix_imageCallback:
  "prefix xs (trace s) \<Longrightarrow> prefix xs (trace (outcome_state (imageCallback w m s)))"
  by (simp add: imageCallback_def prefix_waitKey prefix_emit)

lemma prefix_callAvailable:
  "prefix xs (trace s) \<Longrightarrow> prefix xs (trace (outcome_state (callAvailable w s)))"
  by (auto simp: callAvailable_def Let_def prefix_imageCallback split: option.splits)

lemma prefix_spinOnce:
  "prefix xs (trace s) \<Longrightarrow> prefix xs (trace (outcome_state (spinOnce w s)))"
  by (simp add: spinOnce_def prefix_callAvailable prefix_emit)

lemma prefix_wait_for_intrinsics:
  "prefix xs (trace s) \<Longrightarrow> prefix xs (trace (run_state (wait_for_intrinsics n w s)))"
proof (induction n arbitrary: s)
  case 0
  then show ?case by simp
next
  case (Suc n)
  from prefix_spinOnce [OF Suc.prems, of w]
  show ?case
    using Suc.prems by (cases "spinOnce w s") (auto intro!: Suc.IH prefix_emit)
qed

lemma prefix_spin_loop:
  "prefix xs (trace s) \<Longrightarrow> prefix xs (trace (run_state (spin_loop n w s)))"
proof (induction n arbitrary: s)
  case 0
  then show ?case by simp
next
  case (Suc n)
  from prefix_callAvailable [OF Suc.prems, of w]
  show ?case
    using Suc.prems by (cases "callAvailable w s") (auto intro!: Suc.IH)
qed

lemma head_client_loop_unfold:
  "head_client_loop w i s =
     (if \<not> server_up w (clock s) \<and> ros_ok w (tick (emit (WaitForServer (Duration 2)) s))
          \<and> i < max_iterations
      then head_client_loop w (Suc i)
             (emit (Log Debug [Str ''Waiting for the point_head_action server to come up''])
                (tick (emit (WaitForServer (Duration 2)) s)))
      else (i, tick (emit (WaitForServer (Duration 2)) s)))"
  by (subst head_client_loop.simps) (simp add: waitForServer_def)

lemma prefix_head_client_loop:
  "prefix xs (trace s) \<Longrightarrow> prefix xs (trace (snd (head_client_loop w i s)))"
proof (induction w i s rule: head_client_loop.induct)
  case (1 w i s)
  let ?s1 = "tick (emit (WaitForServer (Duration 2)) s)"
  let ?s2 = "emit (Log Debug [Str ''Waiting for the point_head_action server to come up'']) ?s1"
  have unf: "head_client_loop w i s =
      (if \<not> server_up w (clock s) \<and> ros_ok w ?s1 \<and> i < max_iterations
       then head_client_loop w (Suc i) ?s2 else (i, ?s1))"
    by (subst head_client_loop.simps) (simp add: waitForServer_def)
  have p1: "prefix xs (trace ?s1)"
    using "1.prems" by (simp add: prefix_emit)
  show ?case
  proof (cases "\<not> server_up w (clock s) \<and> ros_ok w ?s1 \<and> i < max_iterations")
    case True
    have a: "(server_up w (clock s), ?s1) = waitForServer (Duration 2) w s"
      by (simp add: waitForServer_def)
    have b: "prefix xs (trace ?s2)"
      using p1 by (rule prefix_emit)
    have "prefix xs (trace (snd (head_client_loop w (Suc i) ?s2)))"
      using "1.IH"[OF a True b] .
    then show ?thesis
      using True by (simp add: unf)
  next
    case False
    then have "head_client_loop w i s = (i, ?s1)"
      unfolding unf by (simp only: if_False)
    then show ?thesis
      using p1 by simp
  qed
qed

lemma prefix_createPointHeadClient:
  "prefix xs (trace s) \<Longrightarrow> prefix xs (trace (outcome_state (createPointHeadClient w s)))"
proof -
  assume a: "prefix xs (trace s)"
  let ?s0 = "emit (NewActionClient head_action_name) (s\<lparr>pointHeadClient := Some head_action_name\<rparr>)"
  have "prefix xs (trace ?s0)"
    using a by (intro prefix_emit) simp
  then have "prefix xs (trace (snd (head_client_loop w 0 ?s0)))"
    by (rule prefix_head_client_loop)
  then show ?thesis
    by (cases "head_client_loop w 0 ?s0") (simp add: createPointHeadClient_def Let_def)
qed

lemma prefix_ros_spin:
  "prefix xs (trace s) \<Longrightarrow> prefix xs (trace (run_state (ros_spin n w s)))"
  by (simp add: ros_spin_def prefix_spin_loop prefix_emit)

lemma prefix_main_after_intrinsics:
  assumes "prefix xs (trace s)"
  shows "prefix xs (trace (final_state (main_after_intrinsics n w s)))"
proof -
  let ?s1 = "emit (SubscriberShutdown cameraInfoTopic) (s\<lparr>cameraInfoSub := False\<rparr>)"
  have p1: "prefix xs (trace ?s1)"
    using assms by (intro prefix_emit) simp
  show ?thesis
  proof (cases "createPointHeadClient w ?s1")
    case (Throws f s2)
    with prefix_createPointHeadClient [OF p1, of w] show ?thesis
      by (simp add: main_after_intrinsics_def Let_def)
  next
    case (Returns s2)
    let ?s6 = "emit (Subscribe imageTopic 1)
        ((emit (Log Info [Str ''Subscribing to '', Str imageTopic, Str '' ...''])
           (emit (SetMouseCallback windowName)
              ((emit (NamedWindow windowName) s2)\<lparr>mouseCallback := True\<rparr>)))\<lparr>imageSub := True\<rparr>)"
    from prefix_createPointHeadClient [OF p1, of w] Returns have "prefix xs (trace s2)"
      by simp
    then have "prefix xs (trace ?s6)"
      by (simp add: emit_def prefix_def) auto
    then have "prefix xs (trace (run_state (ros_spin n w ?s6)))"
      by (rule prefix_ros_spin)
    then show ?thesis
      using Returns
      by (cases "ros_spin n w ?s6") (simp_all add: main_after_intrinsics_def Let_def prefix_emit)
  qed
qed

section \<open>The clock precondition\<close>

lemma trace_waiting_state:
  "trace waiting_state =
     [RosInit ''look_to_point'', Log Info [Str ''Starting look_to_point application ...''],
      WaitForValid (Duration 5), Subscribe cameraInfoTopic 1,
      Log Info [Str ''Waiting for camera intrinsics ... '']]"
  by (simp add: waiting_state_def initial_state_def emit_def Let_def)

lemma waiting_state_fields:
  "cameraInfoSub waiting_state" "\<not> imageSub waiting_state" "\<not> intrinsicsReceived waiting_state"
  "clock waiting_state = 0" "cameraIntrinsics waiting_state = mat_empty"
  by (simp_all add: waiting_state_def initial_state_def emit_def Let_def)

lemma main_valid_not_failure:
  "time_valid w \<Longrightarrow> main n w \<noteq> Exit EXIT_FAILURE s"
  by (simp add: main_def main_after_intrinsics_def Let_def EXIT_FAILURE_def EXIT_SUCCESS_def
      split: run.splits outcome.splits)

text \<open>
  Claim C7. If no valid time shows up within the bound of 5 seconds, the process logs
  a fatal message and returns the failure exit code, and it has created no subscription
  by then. If a valid time shows up, startup goes on to the wait for the intrinsics: the
  run begins with the subscription to the calibration topic and the log line of the
  wait, and it never returns the failure exit code.
\<close>

theorem main_clock_precondition:
  "(\<not> time_valid w \<longrightarrow>
      (\<exists>s. main fuel w = Exit EXIT_FAILURE s \<and> EXIT_FAILURE \<noteq> EXIT_SUCCESS \<and>
         trace s = [RosInit ''look_to_point'',
                    Log Info [Str ''Starting look_to_point application ...''],
                    WaitForValid (Duration 5),
                    Log Fatal [Str ''Timed-out waiting for valid time.'']] \<and>
         subscriptions s = [])) \<and>
   (time_valid w \<longrightarrow>
      prefix [RosInit ''look_to_point'',
              Log Info [Str ''Starting look_to_point application ...''],
              WaitForValid (Duration 5), Subscribe cameraInfoTopic 1,
              Log Info [Str ''Waiting for camera intrinsics ... '']]
        (trace (final_state (main fuel w))) \<and>
      (\<forall>s. main fuel w \<noteq> Exit EXIT_FAILURE s))"
proof (intro conjI impI)
  assume "\<not> time_valid w"
  then show "\<exists>s. main fuel w = Exit EXIT_FAILURE s \<and> EXIT_FAILURE \<noteq> EXIT_SUCCESS \<and>
         trace s = [RosInit ''look_to_point'',
                    Log Info [Str ''Starting look_to_point application ...''],
                    WaitForValid (Duration 5),
                    Log Fatal [Str ''Timed-out waiting for valid time.'']] \<and>
         subscriptions s = []"
    by (simp add: main_def Let_def emit_def initial_state_def subscriptions_def
        EXIT_FAILURE_def EXIT_SUCCESS_def)
next
  assume v: "time_valid w"
  have p: "prefix (trace waiting_state) (trace waiting_state)"
    by simp
  have "prefix (trace waiting_state) (trace (final_state (main fuel w)))"
  proof (cases "wait_for_intrinsics fuel w waiting_state")
    case (Done s4)
    with prefix_wait_for_intrinsics [OF p, of fuel w]
    have "prefix (trace waiting_state) (trace s4)"
      by simp
    then show ?thesis
      using v Done by (simp add: main_def Let_def prefix_main_after_intrinsics)
  next
    case (Raised f s4)
    with prefix_wait_for_intrinsics [OF p, of fuel w] v show ?thesis
      by (simp add: main_def Let_def)
  next
    case (OutOfFuel s4)
    with prefix_wait_for_intrinsics [OF p, of fuel w] v show ?thesis
      by (simp add: main_def Let_def)
  qed
  then show "prefix [RosInit ''look_to_point'',
              Log Info [Str ''Starting look_to_point application ...''],
              WaitForValid (Duration 5), Subscribe cameraInfoTopic 1,
              Log Info [Str ''Waiting for camera intrinsics ... '']]
        (trace (final_state (main fuel w)))"
    by (simp only: trace_waiting_state)
  show "\<forall>s. main fuel w \<noteq> Exit EXIT_FAILURE s"
    using v by (simp add: main_valid_not_failure)
qed

theorem main_clock_precondition_witness:
  "\<not> time_valid no_clock_env \<and>
   (\<exists>s. main 5 no_clock_env = Exit EXIT_FAILURE s \<and>
      last (trace s) = Log Fatal [Str ''Timed-out waiting for valid time.''] \<and>
      subscriptions s = []) \<and>
   time_valid quiet_env \<and>
   prefix [RosInit ''look_to_point'',
           Log Info [Str ''Starting look_to_point application ...''],
           WaitForValid (Duration 5), Subscribe cameraInfoTopic 1,
           Log Info [Str ''Waiting for camera intrinsics ... '']]
     (trace (final_state (main 5 quiet_env))) \<and>
   (\<forall>s. main 5 quiet_env \<noteq> Exit EXIT_FAILURE s)"
proof -
  have h1: "\<not> time_valid no_clock_env"
    by (simp add: no_clock_env_def)
  have h2: "time_valid quiet_env"
    by (simp add: quiet_env_def)
  from main_clock_precondition [of no_clock_env 5] h1
  obtain s where "main 5 no_clock_env = Exit EXIT_FAILURE s"
    and "trace s = [RosInit ''look_to_point'',
                    Log Info [Str ''Starting look_to_point application ...''],
                    WaitForValid (Duration 5),
                    Log Fatal [Str ''Timed-out waiting for valid time.'']]"
    and "subscriptions s = []"
    by blast
  then have a: "\<exists>s. main 5 no_clock_env = Exit EXIT_FAILURE s \<and>
      last (trace s) = Log Fatal [Str ''Timed-out waiting for valid time.''] \<and>
      subscriptions s = []"
    by simp
  from main_clock_precondition [of quiet_env 5] h2 show ?thesis
    using h1 a by blast
qed

section \<open>Cancellation of the wait for the intrinsics\<close>

lemma ros_ok_clock: "clock s = clock s' \<Longrightarrow> ros_ok w s = ros_ok w s'"
  by (simp add: ros_ok_def split: option.splits)

lemma ros_ok_emit [simp]: "ros_ok w (emit e s) = ros_ok w s"
  by (rule ros_ok_clock) (simp add: emit_def)

lemma ros_ok_update [simp]:
  "ros_ok w (s\<lparr>cameraInfoSub := b\<rparr>) = ros_ok w s"
  "ros_ok w (s\<lparr>imageSub := b\<rparr>) = ros_ok w s"
  "ros_ok w (s\<lparr>mouseCallback := b\<rparr>) = ros_ok w s"
  "ros_ok w (s\<lparr>pointHeadClient := c\<rparr>) = ros_ok w s"
  by (rule ros_ok_clock, simp)+

lemma clock_emit [simp]: "clock (emit e s) = clock s"
  by (simp add: emit_def)

lemma clock_tick [simp]: "clock (tick s) = Suc (clock s)"
  by (simp add: tick_def)

lemma spinOnce_no_image:
  "\<not> imageSub s \<Longrightarrow>
   spinOnce w s =
     Returns (case (if cameraInfoSub s then calib_msg w (clock s) else None) of
                None \<Rightarrow> emit SpinOnce s
              | Some msg \<Rightarrow> getCameraIntrinsics msg (emit SpinOnce s))"
  by (simp add: spinOnce_def callAvailable_def emit_def getCameraIntrinsics_def Let_def
      split: option.splits)

lemma wait_for_intrinsics_stopped:
  "\<not> ros_ok w s \<Longrightarrow> wait_for_intrinsics n w s = Done s"
  by (cases n) simp_all

lemma wait_for_intrinsics_received:
  "intrinsicsReceived s \<Longrightarrow> wait_for_intrinsics n w s = Done s"
  by (cases n) simp_all

lemma wait_for_intrinsics_cancel:
  "shutdown_at w = Some t \<Longrightarrow> \<not> imageSub s \<Longrightarrow> t - clock s \<le> n \<Longrightarrow>
   \<exists>s'. wait_for_intrinsics n w s = Done s' \<and> clock s' \<le> max t (clock s) \<and>
     (\<not> intrinsicsReceived s \<and> (\<forall>k. calib_msg w k = None) \<longrightarrow>
        clock s' = max t (clock s) \<and> \<not> intrinsicsReceived s' \<and>
        cameraIntrinsics s' = cameraIntrinsics s)"
proof (induction n arbitrary: s)
  case 0
  then have "\<not> ros_ok w s"
    by (simp add: ros_ok_def)
  then show ?case
    using 0 by (simp add: ros_ok_def max_def)
next
  case (Suc n)
  show ?case
  proof (cases "ros_ok w s \<and> \<not> intrinsicsReceived s")
    case True
    let ?s1 = "case (if cameraInfoSub s then calib_msg w (clock s) else None) of
                None \<Rightarrow> emit SpinOnce s
              | Some msg \<Rightarrow> getCameraIntrinsics msg (emit SpinOnce s)"
    let ?s2 = "tick (emit (Sleep (Duration 0.2)) ?s1)"
    have lt: "clock s < t"
      using True Suc.prems(1) by (simp add: ros_ok_def)
    have c2: "clock ?s2 = Suc (clock s)"
      by (simp add: tick_def emit_def getCameraIntrinsics_def Let_def split: option.splits)
    have i2: "\<not> imageSub ?s2"
      using Suc.prems(2)
      by (simp add: tick_def emit_def getCameraIntrinsics_def Let_def split: option.splits)
    have f2: "t - clock ?s2 \<le> n"
      using Suc.prems(3) c2 by simp
    have step: "wait_for_intrinsics (Suc n) w s = wait_for_intrinsics n w ?s2"
      using True by (simp add: spinOnce_no_image [OF Suc.prems(2)])
    from Suc.IH [OF Suc.prems(1) i2 f2]
    obtain s' where d: "wait_for_intrinsics n w ?s2 = Done s'"
      and le: "clock s' \<le> max t (clock ?s2)"
      and q: "\<not> intrinsicsReceived ?s2 \<and> (\<forall>k. calib_msg w k = None) \<longrightarrow>
         clock s' = max t (clock ?s2) \<and> \<not> intrinsicsReceived s' \<and>
         cameraIntrinsics s' = cameraIntrinsics ?s2"
      by blast
    have m: "max t (clock ?s2) = max t (clock s)"
      using lt c2 by simp
    have "\<not> intrinsicsReceived ?s2 \<and> cameraIntrinsics ?s2 = cameraIntrinsics s"
      if "\<forall>k. calib_msg w k = None"
      using that True by (simp add: tick_def emit_def)
    with q m have "\<not> intrinsicsReceived s \<and> (\<forall>k. calib_msg w k = None) \<longrightarrow>
        clock s' = max t (clock s) \<and> \<not> intrinsicsReceived s' \<and>
        cameraIntrinsics s' = cameraIntrinsics s"
      by simp
    then show ?thesis
      using d le m by (simp only: step) simp
  next
    case False
    then have d: "wait_for_intrinsics (Suc n) w s = Done s"
      by auto
    have "t \<le> clock s" if "\<not> intrinsicsReceived s"
      using that False Suc.prems(1) by (simp add: ros_ok_def)
    then show ?thesis
      unfolding d by (auto simp: max_def)
  qed
qed

lemma waiting_state_ok_silent: "\<not> ros_ok silent_env (waiting_state\<lparr>clock := 3\<rparr>)"
  by (simp add: ros_ok_def silent_env_def)

text \<open>
  Claim C8. The wait for the intrinsics is left within one poll interval after the
  shutdown request becomes active, even if no calibration message ever arrives: the
  request is checked at every poll. With the request active from tick \<open>t\<close> on, the
  loop is over after at most \<open>t - clock s\<close> polls and never polls at or after tick
  \<open>t\<close>; with no message at all it is over exactly at tick \<open>t\<close> (or at once, if the
  request was active already), with the flag unset and the matrix untouched. In a state
  in which \<open>ros::ok()\<close> is false it does not poll at all.
\<close>

theorem wait_for_intrinsics_cancellation:
  assumes "shutdown_at w = Some t" "\<not> imageSub s" "t - clock s \<le> fuel"
  shows "(\<exists>s'. wait_for_intrinsics fuel w s = Done s' \<and> clock s' \<le> max t (clock s) \<and>
           (\<not> intrinsicsReceived s \<and> (\<forall>k. calib_msg w k = None) \<longrightarrow>
              clock s' = max t (clock s) \<and> \<not> intrinsicsReceived s' \<and>
              cameraIntrinsics s' = cameraIntrinsics s)) \<and>
         (\<forall>n s0. \<not> ros_ok w s0 \<longrightarrow> wait_for_intrinsics n w s0 = Done s0)"
  using wait_for_intrinsics_cancel [OF assms] wait_for_intrinsics_stopped by blast

theorem wait_for_intrinsics_cancellation_witness:
  "shutdown_at silent_env = Some 3 \<and> \<not> imageSub waiting_state \<and> 3 - clock waiting_state \<le> 3 \<and>
   \<not> intrinsicsReceived waiting_state \<and> (\<forall>k. calib_msg silent_env k = None) \<and>
   (\<exists>s'. wait_for_intrinsics 3 silent_env waiting_state = Done s' \<and> clock s' = 3 \<and>
      \<not> intrinsicsReceived s' \<and> cameraIntrinsics s' = mat_empty) \<and>
   \<not> ros_ok silent_env (waiting_state\<lparr>clock := 3\<rparr>) \<and>
   wait_for_intrinsics 7 silent_env (waiting_state\<lparr>clock := 3\<rparr>) = Done (waiting_state\<lparr>clock := 3\<rparr>)"
proof -
  have h1: "shutdown_at silent_env = Some 3"
    by (simp add: silent_env_def)
  have h2: "\<not> imageSub waiting_state"
    by (rule waiting_state_fields)
  have h3: "3 - clock waiting_state \<le> 3"
    by simp
  have h4: "\<not> intrinsicsReceived waiting_state \<and> (\<forall>k. calib_msg silent_env k = None)"
    by (simp add: waiting_state_fields silent_env_def quiet_env_def)
  note t = wait_for_intrinsics_cancellation [OF h1 h2 h3]
  from t h4 have a: "\<exists>s'. wait_for_intrinsics 3 silent_env waiting_state = Done s' \<and> clock s' = 3 \<and>
      \<not> intrinsicsReceived s' \<and> cameraIntrinsics s' = mat_empty"
    by (auto simp: waiting_state_fields)
  from t waiting_state_ok_silent
  have b: "wait_for_intrinsics 7 silent_env (waiting_state\<lparr>clock := 3\<rparr>) = Done (waiting_state\<lparr>clock := 3\<rparr>)"
    by blast
  show ?thesis
    using h1 h2 h3 h4 a b waiting_state_ok_silent by blast
qed

section \<open>The calibration is written once\<close>

lemma calibration_emit [simp]: "calibration (emit e s) = calibration s"
  by (simp add: calibration_def emit_def)

lemma calibration_tick [simp]: "calibration (tick s) = calibration s"
  by (simp add: calibration_def tick_def)

lemma calibration_update [simp]:
  "calibration (s\<lparr>imageSub := b\<rparr>) = calibration s"
  "calibration (s\<lparr>mouseCallback := b\<rparr>) = calibration s"
  "calibration (s\<lparr>pointHeadClient := c\<rparr>) = calibration s"
  by (simp_all add: calibration_def)

lemma calibration_onMouse:
  "calibration (outcome_state (onMouse w event u v flags s)) = calibration s"
  by (simp add: onMouse_def Let_def split: option.splits)

lemma calibration_deliver_mouse:
  "calibration (outcome_state (deliver_mouse w evs s)) = calibration s"
proof (induction w evs s rule: deliver_mouse.induct)
  case (1 w s)
  then show ?case by simp
next
  case (2 w event u v flags evs s)
  from calibration_onMouse [of w event u v flags s] show ?case
    using "2.IH" by (cases "onMouse w event u v flags s") simp_all
qed

lemma calibration_imageCallback:
  "calibration (outcome_state (imageCallback w m s)) = calibration s"
  by (simp add: imageCallback_def waitKey_def Let_def calibration_deliver_mouse)

lemma calibration_callAvailable:
  "\<not> cameraInfoSub s \<Longrightarrow> calibration (outcome_state (callAvailable w s)) = calibration s"
  by (simp add: callAvailable_def Let_def calibration_imageCallback split: option.splits)

lemma calibration_spin_loop:
  "\<not> cameraInfoSub s \<Longrightarrow> calibration (run_state (spin_loop n w s)) = calibration s"
proof (induction n arbitrary: s)
  case 0
  then show ?case by simp
next
  case (Suc n)
  from calibration_callAvailable [OF Suc.prems, of w]
  have c: "calibration (outcome_state (callAvailable w s)) = calibration s" .
  show ?case
  proof (cases "callAvailable w s")
    case (Returns s1)
    with c have e: "calibration s1 = calibration s"
      by simp
    then have "\<not> cameraInfoSub (tick s1)"
      using Suc.prems by (simp add: calibration_def tick_def)
    from Suc.IH [OF this] e Returns show ?thesis
      by simp
  next
    case (Throws f s1)
    with c show ?thesis
      by simp
  qed
qed

lemma calibration_head_client_loop:
  "calibration (snd (head_client_loop w i s)) = calibration s"
proof (induction w i s rule: head_client_loop.induct)
  case (1 w i s)
  let ?s1 = "tick (emit (WaitForServer (Duration 2)) s)"
  note unf = head_client_loop_unfold [of w i s]
  show ?case
  proof (cases "\<not> server_up w (clock s) \<and> ros_ok w ?s1 \<and> i < max_iterations")
    case True
    have a: "(server_up w (clock s), ?s1) = waitForServer (Duration 2) w s"
      by (simp add: waitForServer_def)
    from "1.IH" [OF a True] show ?thesis
      using True by (simp add: unf)
  next
    case False
    then have "head_client_loop w i s = (i, ?s1)"
      unfolding unf by (simp only: if_False)
    then show ?thesis
      by simp
  qed
qed

lemma calibration_createPointHeadClient:
  "calibration (outcome_state (createPointHeadClient w s)) = calibration s"
proof -
  let ?s0 = "emit (NewActionClient head_action_name) (s\<lparr>pointHeadClient := Some head_action_name\<rparr>)"
  have "calibration (snd (head_client_loop w 0 ?s0)) = calibration s"
    by (simp add: calibration_head_client_loop)
  then show ?thesis
    by (cases "head_client_loop w 0 ?s0") (simp add: createPointHeadClient_def Let_def)
qed

lemma calibration_main_after_intrinsics:
  "cameraIntrinsics (final_state (main_after_intrinsics n w s)) = cameraIntrinsics s \<and>
   intrinsicsReceived (final_state (main_after_intrinsics n w s)) = intrinsicsReceived s"
proof -
  let ?s1 = "emit (SubscriberShutdown cameraInfoTopic) (s\<lparr>cameraInfoSub := False\<rparr>)"
  have c1: "calibration ?s1 = (cameraIntrinsics s, intrinsicsReceived s, False)"
    by (simp add: calibration_def emit_def)
  have "calibration (final_state (main_after_intrinsics n w s)) = calibration ?s1"
  proof (cases "createPointHeadClient w ?s1")
    case (Throws f s2)
    with calibration_createPointHeadClient [of w ?s1] show ?thesis
      by (simp add: main_after_intrinsics_def Let_def)
  next
    case (Returns s2)
    let ?s6 = "emit (Subscribe imageTopic 1)
        ((emit (Log Info [Str ''Subscribing to '', Str imageTopic, Str '' ...''])
           (emit (SetMouseCallback windowName)
              ((emit (NamedWindow windowName) s2)\<lparr>mouseCallback := True\<rparr>)))\<lparr>imageSub := True\<rparr>)"
    from calibration_createPointHeadClient [of w ?s1] Returns
    have e2: "calibration s2 = calibration ?s1"
      by simp
    then have e6: "calibration (emit Spin ?s6) = calibration ?s1"
      by simp
    then have "\<not> cameraInfoSub (emit Spin ?s6)"
      using c1 by (simp add: calibration_def)
    then have "calibration (run_state (spin_loop n w (emit Spin ?s6))) = calibration ?s1"
      using e6 by (simp add: calibration_spin_loop)
    then show ?thesis
      using Returns
      by (cases "spin_loop n w (emit Spin ?s6)")
        (simp_all add: main_after_intrinsics_def ros_spin_def Let_def)
  qed
  then show ?thesis
    using c1 by (simp add: calibration_def)
qed

lemma getCameraIntrinsics_matrix:
  "cameraIntrinsics (getCameraIntrinsics msg s) = cameraIntrinsics (getCameraIntrinsics msg s')"
  by (simp add: getCameraIntrinsics_def Let_def)

lemma wait_first_message_safety:
  "cameraInfoSub s \<Longrightarrow> \<not> imageSub s \<Longrightarrow> \<not> intrinsicsReceived s \<Longrightarrow>
   calib_msg w t = Some msg \<Longrightarrow> \<forall>k. clock s \<le> k \<and> k < t \<longrightarrow> calib_msg w k = None \<Longrightarrow>
   clock s \<le> t \<Longrightarrow>
   (intrinsicsReceived (run_state (wait_for_intrinsics n w s)) \<longrightarrow>
      cameraIntrinsics (run_state (wait_for_intrinsics n w s)) =
        cameraIntrinsics (getCameraIntrinsics msg initial_state)) \<and>
   (\<not> intrinsicsReceived (run_state (wait_for_intrinsics n w s)) \<longrightarrow>
      cameraIntrinsics (run_state (wait_for_intrinsics n w s)) = cameraIntrinsics s)"
proof (induction n arbitrary: s)
  case 0
  then show ?case by simp
next
  case (Suc n)
  show ?case
  proof (cases "ros_ok w s")
    case False
    then show ?thesis
      using Suc.prems(3) by simp
  next
    case True
    show ?thesis
    proof (cases "clock s = t")
      case True
      let ?s2 = "tick (emit (Sleep (Duration 0.2)) (getCameraIntrinsics msg (emit SpinOnce s)))"
      have r: "intrinsicsReceived ?s2"
        by (simp add: tick_def emit_def getCameraIntrinsics_def Let_def)
      have "wait_for_intrinsics (Suc n) w s = wait_for_intrinsics n w ?s2"
        using \<open>ros_ok w s\<close> True Suc.prems(1,3,4)
        by (simp add: spinOnce_no_image [OF Suc.prems(2)])
      then have "wait_for_intrinsics (Suc n) w s = Done ?s2"
        using r by (simp add: wait_for_intrinsics_received)
      moreover have "cameraIntrinsics ?s2 = cameraIntrinsics (getCameraIntrinsics msg initial_state)"
        by (simp add: tick_def emit_def getCameraIntrinsics_def Let_def)
      ultimately show ?thesis
        using r by simp
    next
      case False
      then have lt: "clock s < t"
        using Suc.prems(6) by simp
      then have none: "calib_msg w (clock s) = None"
        using Suc.prems(5) by simp
      let ?s2 = "tick (emit (Sleep (Duration 0.2)) (emit SpinOnce s))"
      have step: "wait_for_intrinsics (Suc n) w s = wait_for_intrinsics n w ?s2"
        using \<open>ros_ok w s\<close> none Suc.prems(3)
        by (simp add: spinOnce_no_image [OF Suc.prems(2)])
      have p: "cameraInfoSub ?s2" "\<not> imageSub ?s2" "\<not> intrinsicsReceived ?s2"
        "cameraIntrinsics ?s2 = cameraIntrinsics s"
        using Suc.prems(1-3) by (simp_all add: tick_def emit_def)
      have q: "\<forall>k. clock ?s2 \<le> k \<and> k < t \<longrightarrow> calib_msg w k = None" "clock ?s2 \<le> t"
        using Suc.prems(5) lt by simp_all
      from Suc.IH [OF p(1-3) Suc.prems(4) q] show ?thesis
        unfolding step p(4) .
    qed
  qed
qed

lemma wait_first_message_live:
  "cameraInfoSub s \<Longrightarrow> \<not> imageSub s \<Longrightarrow> \<not> intrinsicsReceived s \<Longrightarrow>
   calib_msg w t = Some msg \<Longrightarrow> \<forall>k. clock s \<le> k \<and> k < t \<longrightarrow> calib_msg w k = None \<Longrightarrow>
   clock s \<le> t \<Longrightarrow> (case shutdown_at w of None \<Rightarrow> True | Some c \<Rightarrow> t < c) \<Longrightarrow>
   t - clock s < n \<Longrightarrow>
   \<exists>s'. wait_for_intrinsics n w s = Done s' \<and> intrinsicsReceived s' \<and> clock s' = Suc t"
proof (induction n arbitrary: s)
  case 0
  then show ?case by simp
next
  case (Suc n)
  have ok: "ros_ok w s"
    using Suc.prems(6,7) by (simp add: ros_ok_def split: option.splits)
  show ?case
  proof (cases "clock s = t")
    case True
    let ?s2 = "tick (emit (Sleep (Duration 0.2)) (getCameraIntrinsics msg (emit SpinOnce s)))"
    have r: "intrinsicsReceived ?s2"
      by (simp add: tick_def emit_def getCameraIntrinsics_def Let_def)
    have "wait_for_intrinsics (Suc n) w s = wait_for_intrinsics n w ?s2"
      using ok True Suc.prems(1,3,4)
      by (simp add: spinOnce_no_image [OF Suc.prems(2)])
    moreover have "clock ?s2 = Suc t"
      using True by (simp add: getCameraIntrinsics_def Let_def)
    ultimately show ?thesis
      using r by (simp add: wait_for_intrinsics_received)
  next
    case False
    then have lt: "clock s < t"
      using Suc.prems(6) by simp
    then have none: "calib_msg w (clock s) = None"
      using Suc.prems(5) by simp
    let ?s2 = "tick (emit (Sleep (Duration 0.2)) (emit SpinOnce s))"
    have step: "wait_for_intrinsics (Suc n) w s = wait_for_intrinsics n w ?s2"
      using ok none Suc.prems(3)
      by (simp add: spinOnce_no_image [OF Suc.prems(2)])
    have p: "cameraInfoSub ?s2" "\<not> imageSub ?s2" "\<not> intrinsicsReceived ?s2"
      using Suc.prems(1-3) by (simp_all add: tick_def emit_def)
    have q: "\<forall>k. clock ?s2 \<le> k \<and> k < t \<longrightarrow> calib_msg w k = None" "clock ?s2 \<le> t"
      "t - clock ?s2 < n"
      using Suc.prems(5,8) lt by simp_all
    from Suc.IH [OF p Suc.prems(4) q(1,2) Suc.prems(7) q(3)] show ?thesis
      unfolding step .
  qed
qed

lemma main_calibration:
  assumes "calib_msg w t = Some msg" "\<forall>k<t. calib_msg w k = None"
  shows "(intrinsicsReceived (final_state (main n w)) \<longrightarrow>
            cameraIntrinsics (final_state (main n w)) =
              cameraIntrinsics (getCameraIntrinsics msg initial_state)) \<and>
         (\<not> intrinsicsReceived (final_state (main n w)) \<longrightarrow>
            cameraIntrinsics (final_state (main n w)) = mat_empty)"
proof (cases "time_valid w")
  case False
  then show ?thesis
    by (simp add: main_def Let_def emit_def initial_state_def)
next
  case True
  have q: "\<forall>k. clock waiting_state \<le> k \<and> k < t \<longrightarrow> calib_msg w k = None"
    "clock waiting_state \<le> t"
    using assms(2) by (simp_all add: waiting_state_fields)
  note saf = wait_first_message_safety [OF waiting_state_fields(1-3) assms(1) q, of n,
      unfolded waiting_state_fields(5)]
  show ?thesis
  proof (cases "wait_for_intrinsics n w waiting_state")
    case (Done s4)
    then have "main n w = main_after_intrinsics n w s4"
      using True by (simp add: main_def Let_def)
    then show ?thesis
      using saf Done calibration_main_after_intrinsics [of n w s4] by simp
  next
    case (Raised f s4)
    then have "main n w = Abort f s4"
      using True by (simp add: main_def Let_def)
    then show ?thesis
      using saf Raised by simp
  next
    case (OutOfFuel s4)
    then have "main n w = Pending s4"
      using True by (simp add: main_def Let_def)
    then show ?thesis
      using saf OutOfFuel by simp
  qed
qed

lemma main_receives:
  assumes "calib_msg w t = Some msg" "\<forall>k<t. calib_msg w k = None"
    "time_valid w" "case shutdown_at w of None \<Rightarrow> True | Some c \<Rightarrow> t < c" "t < n"
  shows "intrinsicsReceived (final_state (main n w))"
proof -
  have q: "\<forall>k. clock waiting_state \<le> k \<and> k < t \<longrightarrow> calib_msg w k = None"
    "clock waiting_state \<le> t" "t - clock waiting_state < n"
    using assms(2,5) by (simp_all add: waiting_state_fields)
  from wait_first_message_live [OF waiting_state_fields(1-3) assms(1) q(1,2) assms(4) q(3)]
  obtain s4 where d: "wait_for_intrinsics n w waiting_state = Done s4" and r: "intrinsicsReceived s4"
    by blast
  then have "main n w = main_after_intrinsics n w s4"
    using assms(3) by (simp add: main_def Let_def)
  then show ?thesis
    using r calibration_main_after_intrinsics [of n w s4] by simp
qed

text \<open>
  Claim C5. The intrinsic matrix is populated exactly once, by the first calibration
  message, and is not modified afterwards: at every point of every run of main the
  matrix is either still empty (flag unset) or the one built from the first message
  (flag set), whatever messages follow; when the clock is valid and shutdown comes after
  the first message, the matrix does get populated. No other operation writes it:
  \<open>onMouse\<close>, \<open>imageCallback\<close>, \<open>createPointHeadClient\<close> and, once the subscriber
  is shut down, \<open>ros::spin()\<close> leave it as it is.
\<close>

theorem intrinsics_written_once:
  assumes "calib_msg w t = Some msg" "\<forall>k<t. calib_msg w k = None"
  shows "(\<forall>fuel.
            (intrinsicsReceived (final_state (main fuel w)) \<longrightarrow>
               cameraIntrinsics (final_state (main fuel w)) =
                 cameraIntrinsics (getCameraIntrinsics msg initial_state)) \<and>
            (\<not> intrinsicsReceived (final_state (main fuel w)) \<longrightarrow>
               cameraIntrinsics (final_state (main fuel w)) = mat_empty)) \<and>
         (time_valid w \<and> (case shutdown_at w of None \<Rightarrow> True | Some c \<Rightarrow> t < c) \<longrightarrow>
            (\<forall>fuel. t < fuel \<longrightarrow> intrinsicsReceived (final_state (main fuel w)))) \<and>
         (\<forall>event u v flags s.
            cameraIntrinsics (outcome_state (onMouse w event u v flags s)) = cameraIntrinsics s) \<and>
         (\<forall>m s. cameraIntrinsics (outcome_state (imageCallback w m s)) = cameraIntrinsics s) \<and>
         (\<forall>s. cameraIntrinsics (outcome_state (createPointHeadClient w s)) = cameraIntrinsics s) \<and>
         (\<forall>n s. \<not> cameraInfoSub s \<longrightarrow>
            cameraIntrinsics (run_state (ros_spin n w s)) = cameraIntrinsics s)"
proof (intro conjI allI impI)
  fix fuel
  assume "intrinsicsReceived (final_state (main fuel w))"
  then show "cameraIntrinsics (final_state (main fuel w)) =
      cameraIntrinsics (getCameraIntrinsics msg initial_state)"
    using main_calibration [OF assms, of fuel] by simp
next
  fix fuel
  assume "\<not> intrinsicsReceived (final_state (main fuel w))"
  then show "cameraIntrinsics (final_state (main fuel w)) = mat_empty"
    using main_calibration [OF assms, of fuel] by simp
next
  fix fuel
  assume "time_valid w \<and> (case shutdown_at w of None \<Rightarrow> True | Some c \<Rightarrow> t < c)" "t < fuel"
  then show "intrinsicsReceived (final_state (main fuel w))"
    using main_receives [OF assms, of fuel] by simp
next
  fix event u v flags s
  from calibration_onMouse [of w event u v flags s]
  show "cameraIntrinsics (outcome_state (onMouse w event u v flags s)) = cameraIntrinsics s"
    by (simp add: calibration_def)
next
  fix m s
  from calibration_imageCallback [of w m s]
  show "cameraIntrinsics (outcome_state (imageCallback w m s)) = cameraIntrinsics s"
    by (simp add: calibration_def)
next
  fix s
  from calibration_createPointHeadClient [of w s]
  show "cameraIntrinsics (outcome_state (createPointHeadClient w s)) = cameraIntrinsics s"
    by (simp add: calibration_def)
next
  fix n and s :: state
  assume "\<not> cameraInfoSub s"
  then have "calibration (run_state (spin_loop n w (emit Spin s))) = calibration (emit Spin s)"
    by (intro calibration_spin_loop) (simp add: emit_def)
  then show "cameraIntrinsics (run_state (ros_spin n w s)) = cameraIntrinsics s"
    by (simp add: ros_spin_def calibration_def emit_def)
qed

theorem intrinsics_written_once_witness:
  "calib_msg calib_env 1 = Some \<lparr>msg_K = K0\<rparr> \<and> calib_msg calib_env 0 = None \<and>
   calib_msg calib_env 2 = Some \<lparr>msg_K = K1\<rparr> \<and>
   time_valid calib_env \<and> shutdown_at calib_env = Some 6 \<and>
   intrinsicsReceived (final_state (main 9 calib_env)) \<and>
   cameraIntrinsics (final_state (main 9 calib_env)) =
     \<lparr>mat_rows = 3, mat_cols = 3,
      mat_data = [Fin 500, Fin 0, Fin 320, Fin 0, Fin 500, Fin 240, Fin 0, Fin 0, Fin 1]\<rparr>"
proof -
  have h1: "calib_msg calib_env 1 = Some \<lparr>msg_K = K0\<rparr>"
    and h2: "\<forall>k<1. calib_msg calib_env k = None"
    and h3: "calib_msg calib_env 2 = Some \<lparr>msg_K = K1\<rparr>"
    and h4: "time_valid calib_env" and h5: "shutdown_at calib_env = Some 6"
    by (simp_all add: calib_env_def quiet_env_def)
  note t = intrinsics_written_once [OF h1 h2]
  have "time_valid calib_env \<and> (case shutdown_at calib_env of None \<Rightarrow> True | Some c \<Rightarrow> 1 < c)"
    using h4 h5 by simp
  with t have r: "intrinsicsReceived (final_state (main 9 calib_env))"
    by simp
  with t have "cameraIntrinsics (final_state (main 9 calib_env)) =
      cameraIntrinsics (getCameraIntrinsics \<lparr>msg_K = K0\<rparr> initial_state)"
    by blast
  then have "cameraIntrinsics (final_state (main 9 calib_env)) =
     \<lparr>mat_rows = 3, mat_cols = 3,
      mat_data = [Fin 500, Fin 0, Fin 320, Fin 0, Fin 500, Fin 240, Fin 0, Fin 0, Fin 1]\<rparr>"
    by (simp add: K0_def getCameraIntrinsics_entries)
  moreover have "calib_msg calib_env 0 = None"
    using h2 by simp
  ultimately show ?thesis
    using h1 h3 h4 h5 r by blast
qed

section \<open>Cancellation of the wait for the action server\<close>

lemma head_client_loop_cancel:
  "shutdown_at w = Some t \<Longrightarrow> i < max_iterations \<Longrightarrow> t \<le> clock s + (max_iterations - i) \<Longrightarrow>
   \<forall>k. clock s + k + 1 < t \<longrightarrow> \<not> server_up w (clock s + k) \<Longrightarrow>
   fst (head_client_loop w i s) < max_iterations \<and> \<not> ros_ok w (snd (head_client_loop w i s))"
proof (induction w i s rule: head_client_loop.induct)
  case (1 w i s)
  let ?s1 = "tick (emit (WaitForServer (Duration 2)) s)"
  let ?s2 = "emit (Log Debug [Str ''Waiting for the point_head_action server to come up'']) ?s1"
  note unf = head_client_loop_unfold [of w i s]
  show ?case
  proof (cases "clock s + 1 < t")
    case True
    have up: "\<not> server_up w (clock s)"
      using "1.prems"(4) True by (metis add.right_neutral)
    have ok: "ros_ok w ?s1"
      using True "1.prems"(1) by (simp add: ros_ok_def)
    have c: "\<not> server_up w (clock s) \<and> ros_ok w ?s1 \<and> i < max_iterations"
      using up ok "1.prems"(2) by simp
    have a: "(server_up w (clock s), ?s1) = waitForServer (Duration 2) w s"
      by (simp add: waitForServer_def)
    have i2: "Suc i < max_iterations"
      using True "1.prems"(2,3) by simp
    have t2: "t \<le> clock ?s2 + (max_iterations - Suc i)"
      using "1.prems"(2,3) by simp
    have h2: "\<forall>k. clock ?s2 + k + 1 < t \<longrightarrow> \<not> server_up w (clock ?s2 + k)"
    proof (intro allI impI)
      fix k
      assume "clock ?s2 + k + 1 < t"
      then have "clock s + Suc k + 1 < t"
        by simp
      with "1.prems"(4) have "\<not> server_up w (clock s + Suc k)"
        by blast
      then show "\<not> server_up w (clock ?s2 + k)"
        by simp
    qed
    from "1.IH" [OF a c "1.prems"(1) i2 t2 h2] show ?thesis
      using c by (simp add: unf)
  next
    case False
    then have "\<not> ros_ok w ?s1"
      using "1.prems"(1) by (simp add: ros_ok_def)
    then show ?thesis
      using "1.prems"(2) by (simp add: unf)
  qed
qed

lemma spin_loop_stopped: "\<not> ros_ok w s \<Longrightarrow> spin_loop n w s = Done s"
  by (cases n) simp_all

lemma ros_spin_stopped: "\<not> ros_ok w s \<Longrightarrow> ros_spin n w s = Done (emit Spin s)"
  by (simp add: ros_spin_def spin_loop_stopped)

lemma cancel_env_wait:
  "\<exists>s. wait_for_intrinsics 5 cancel_env waiting_state = Done s \<and> clock s = 2"
proof -
  have q: "\<forall>k. clock waiting_state \<le> k \<and> k < 1 \<longrightarrow> calib_msg cancel_env k = None"
    "clock waiting_state \<le> 1" "1 - clock waiting_state < 5"
    "calib_msg cancel_env 1 = Some \<lparr>msg_K = K0\<rparr>"
    "case shutdown_at cancel_env of None \<Rightarrow> True | Some c \<Rightarrow> 1 < c"
    by (simp_all add: waiting_state_fields cancel_env_def)
  from wait_first_message_live [OF waiting_state_fields(1-3) q(4) q(1,2) q(5) q(3)]
  show ?thesis
    by (auto simp: numeral_2_eq_2)
qed

text \<open>
  Claim C10. If the shutdown request becomes active during the wait for the action
  server, before the counter of failed attempts has reached 3, then
  \<open>createPointHeadClient\<close> returns normally, and main goes through the remaining
  steps (window, mouse callback, image subscription, spin, which returns at once,
  destruction of the window) and returns the success exit code.
\<close>

theorem cancelled_connection_exits_success:
  assumes "time_valid w" "wait_for_intrinsics fuel w waiting_state = Done s"
    "shutdown_at w = Some t" "t \<le> clock s + 3"
    "\<forall>k. clock s + k + 1 < t \<longrightarrow> \<not> server_up w (clock s + k)"
  shows "\<exists>s1. createPointHeadClient w
                (emit (SubscriberShutdown cameraInfoTopic) (s\<lparr>cameraInfoSub := False\<rparr>)) = Returns s1 \<and>
           main fuel w = Exit EXIT_SUCCESS
             (s1\<lparr>mouseCallback := True, imageSub := True,
                 trace := trace s1 @
                   [NamedWindow windowName, SetMouseCallback windowName,
                    Log Info [Str ''Subscribing to '', Str imageTopic, Str '' ...''],
                    Subscribe imageTopic 1, Spin, DestroyWindow windowName]\<rparr>) \<and>
           EXIT_SUCCESS \<noteq> EXIT_FAILURE"
proof -
  let ?s' = "emit (SubscriberShutdown cameraInfoTopic) (s\<lparr>cameraInfoSub := False\<rparr>)"
  let ?s0 = "emit (NewActionClient head_action_name) (?s'\<lparr>pointHeadClient := Some head_action_name\<rparr>)"
  have c0: "clock ?s0 = clock s"
    by (simp add: emit_def)
  have l: "fst (head_client_loop w 0 ?s0) < max_iterations \<and>
      \<not> ros_ok w (snd (head_client_loop w 0 ?s0))"
    using assms(3-5) unfolding c0 [symmetric]
    by (intro head_client_loop_cancel) (simp_all add: max_iterations_def)
  obtain n s1 where p: "head_client_loop w 0 ?s0 = (n, s1)"
    by (cases "head_client_loop w 0 ?s0")
  with l have n: "n \<noteq> max_iterations" and no: "\<not> ros_ok w s1"
    by simp_all
  have r: "createPointHeadClient w ?s' = Returns s1"
    using p n by (simp add: createPointHeadClient_def Let_def)
  let ?s6 = "emit (Subscribe imageTopic 1)
        ((emit (Log Info [Str ''Subscribing to '', Str imageTopic, Str '' ...''])
           (emit (SetMouseCallback windowName)
              ((emit (NamedWindow windowName) s1)\<lparr>mouseCallback := True\<rparr>)))\<lparr>imageSub := True\<rparr>)"
  have "main_after_intrinsics fuel w s = Exit EXIT_SUCCESS (emit (DestroyWindow windowName) (emit Spin ?s6))"
    using no by (simp add: main_after_intrinsics_def r ros_spin_stopped Let_def)
  then have "main fuel w = Exit EXIT_SUCCESS (emit (DestroyWindow windowName) (emit Spin ?s6))"
    using assms(1,2) by (simp add: main_def Let_def)
  moreover have "emit (DestroyWindow windowName) (emit Spin ?s6) =
      s1\<lparr>mouseCallback := True, imageSub := True,
                 trace := trace s1 @
                   [NamedWindow windowName, SetMouseCallback windowName,
                    Log Info [Str ''Subscribing to '', Str imageTopic, Str '' ...''],
                    Subscribe imageTopic 1, Spin, DestroyWindow windowName]\<rparr>"
    by (simp add: emit_def)
  ultimately show ?thesis
    using r by (simp add: EXIT_SUCCESS_def EXIT_FAILURE_def)
qed

theorem cancelled_connection_exits_success_witness:
  "time_valid cancel_env \<and> shutdown_at cancel_env = Some 4 \<and>
   (\<exists>s. wait_for_intrinsics 5 cancel_env waiting_state = Done s \<and> 4 \<le> clock s + 3) \<and>
   (\<forall>k. \<not> server_up cancel_env k) \<and>
   (\<exists>s2. main 5 cancel_env = Exit EXIT_SUCCESS s2) \<and> EXIT_SUCCESS \<noteq> EXIT_FAILURE"
proof -
  have h1: "time_valid cancel_env" and h3: "shutdown_at cancel_env = Some 4"
    by (simp_all add: cancel_env_def quiet_env_def)
  from cancel_env_wait obtain s
    where h2: "wait_for_intrinsics 5 cancel_env waiting_state = Done s" and c: "clock s = 2"
    by blast
  have h4: "4 \<le> clock s + 3"
    using c by simp
  have h5: "\<forall>k. clock s + k + 1 < 4 \<longrightarrow> \<not> server_up cancel_env (clock s + k)"
    by (simp add: cancel_env_def quiet_env_def)
  have h6: "\<forall>k. \<not> server_up cancel_env k"
    by (simp add: cancel_env_def quiet_env_def)
  from cancelled_connection_exits_success [OF h1 h2 h3 h4 h5] show ?thesis
    using h1 h2 h3 h4 h6 by blast
qed

end
